theory Spec2Isabelle
  imports Complex_Main "HOL-Library.Sublist"
begin

section \<open>Decoded frames and Python's operations on them\<close>

text \<open>
  \<^verbatim>\<open>message_handler\<close> decodes a frame with \<^verbatim>\<open>json.loads(msg, parse_float=Decimal)\<close>.
  The value it gets is a \<open>json\<close>: an object is the list of the key/value pairs of the dict,
  each key once, a number without fraction is a Python \<^verbatim>\<open>int\<close>,
  a number with one is a \<^verbatim>\<open>Decimal\<close>.  Decimals are finite here and are the rationals
  they denote: Python compares and hashes a \<^verbatim>\<open>Decimal\<close> by its numeric value, and the
  result of its arithmetic depends on the values of the operands only.
\<close>

datatype json =
    JNull
  | JBool bool
  | JInt int
  | JDec rat
  | JStr string
  | JArr "json list"
  | JObj "(string \<times> json) list"

datatype error =
    KeyError
  | TypeError
  | ValueError
  | InvalidOperation
  | UnsupportedSymbol
  | MissingSequenceNumber
  | ConnectionClosed
  | HTTPError
  | Overflow

definition ebind :: "error + 'a \<Rightarrow> ('a \<Rightarrow> error + 'b) \<Rightarrow> error + 'b" where
  "ebind m f = (case m of Inl e \<Rightarrow> Inl e | Inr v \<Rightarrow> f v)"

text \<open>\<^verbatim>\<open>k in v\<close> for a string literal \<open>k\<close>: key of a dict, element of a list, substring of
  a string; any other operand is not iterable.\<close>

fun py_contains :: "string \<Rightarrow> json \<Rightarrow> error + bool" where
  "py_contains k (JObj kvs) = Inr (k \<in> set (map fst kvs))"
| "py_contains k (JArr xs) = Inr (JStr k \<in> set xs)"
| "py_contains k (JStr s) = Inr (sublist k s)"
| "py_contains k JNull = Inl TypeError"
| "py_contains k (JBool b) = Inl TypeError"
| "py_contains k (JInt i) = Inl TypeError"
| "py_contains k (JDec r) = Inl TypeError"

text \<open>\<^verbatim>\<open>v[k]\<close> for a string literal \<open>k\<close>: only a dict can be subscripted by a string.\<close>

fun py_getitem :: "json \<Rightarrow> string \<Rightarrow> error + json" where
  "py_getitem (JObj kvs) k = (case map_of kvs k of None \<Rightarrow> Inl KeyError | Some v \<Rightarrow> Inr v)"
| "py_getitem JNull k = Inl TypeError"
| "py_getitem (JBool b) k = Inl TypeError"
| "py_getitem (JInt i) k = Inl TypeError"
| "py_getitem (JDec r) k = Inl TypeError"
| "py_getitem (JStr s) k = Inl TypeError"
| "py_getitem (JArr xs) k = Inl TypeError"

text \<open>\<^verbatim>\<open>for x in v\<close>: the elements of a list, the keys of a dict, the characters of a
  string.\<close>

fun py_iter :: "json \<Rightarrow> error + json list" where
  "py_iter (JArr xs) = Inr xs"
| "py_iter (JObj kvs) = Inr (map (\<lambda>kv. JStr (fst kv)) kvs)"
| "py_iter (JStr s) = Inr (map (\<lambda>c. JStr [c]) s)"
| "py_iter JNull = Inl TypeError"
| "py_iter (JBool b) = Inl TypeError"
| "py_iter (JInt i) = Inl TypeError"
| "py_iter (JDec r) = Inl TypeError"

text \<open>Truth value of a decoded value, as \<^verbatim>\<open>not v\<close> reads it.\<close>

fun py_truthy :: "json \<Rightarrow> bool" where
  "py_truthy JNull = False"
| "py_truthy (JBool b) = b"
| "py_truthy (JInt i) = (i \<noteq> 0)"
| "py_truthy (JDec r) = (r \<noteq> 0)"
| "py_truthy (JStr s) = (s \<noteq> [])"
| "py_truthy (JArr xs) = (xs \<noteq> [])"
| "py_truthy (JObj kvs) = (kvs \<noteq> [])"

text \<open>The numeric value of a decoded value, if it is a number (\<^verbatim>\<open>bool\<close> is a subclass
  of \<^verbatim>\<open>int\<close>).\<close>

fun py_num :: "json \<Rightarrow> rat option" where
  "py_num (JBool b) = Some (if b then 1 else 0)"
| "py_num (JInt i) = Some (of_int i)"
| "py_num (JDec r) = Some r"
| "py_num JNull = None"
| "py_num (JStr s) = None"
| "py_num (JArr xs) = None"
| "py_num (JObj kvs) = None"

text \<open>
  Arithmetic on a \<^verbatim>\<open>Decimal\<close> rounds its exact result in the context of the \<^verbatim>\<open>decimal\<close>
  module, which nothing in the adapter changes: precision 28, \<^verbatim>\<open>ROUND_HALF_EVEN\<close>,
  \<^verbatim>\<open>Emax = 999999\<close>, \<^verbatim>\<open>Emin = -999999\<close>, with \<^verbatim>\<open>Overflow\<close> trapped and \<^verbatim>\<open>Inexact\<close>, \<^verbatim>\<open>Rounded\<close>,
  \<^verbatim>\<open>Subnormal\<close> and \<^verbatim>\<open>Underflow\<close> not.  \<open>adjusted x\<close> is the exponent of the leading digit of
  \<open>x \<noteq> 0\<close>, that is the \<open>e\<close> with \<^verbatim>\<open>10**e <= abs(x) < 10**(e+1)\<close>, found from the numbers of digits of
  the numerator and the denominator.  \<open>decimal_round\<close> keeps 28 significant digits, or the
  digits down to \<open>Etiny = Emin - 27\<close> if these are fewer, and raises when the rounded value
  has an exponent above \<open>Emax\<close>.
\<close>

definition pow10 :: "int \<Rightarrow> rat" where
  "pow10 k = (if 0 \<le> k then 10 ^ nat k else 1 / 10 ^ nat (- k))"

function ndigits :: "int \<Rightarrow> int" where
  "ndigits n = (if n < 10 then 1 else 1 + ndigits (n div 10))"
  by pat_completeness auto
termination
  by (relation "measure (\<lambda>n. nat n)") auto

definition adjusted :: "rat \<Rightarrow> int" where
  "adjusted x =
     (case quotient_of \<bar>x\<bar> of (p, q) \<Rightarrow>
        let t = ndigits p - ndigits q
        in if pow10 t \<le> \<bar>x\<bar> then t else t - 1)"

definition round_half_even :: "rat \<Rightarrow> int" where
  "round_half_even y =
     (let f = \<lfloor>y\<rfloor>; d = y - of_int f
      in if d < 1 / 2 then f else if 1 / 2 < d then f + 1 else if even f then f else f + 1)"

definition decimal_round :: "rat \<Rightarrow> error + rat" where
  "decimal_round x =
     (if x = 0 then Inr 0
      else let q = max (adjusted x - 27) (- 1000026);
               y = of_int (round_half_even (x / pow10 q)) * pow10 q
           in if y \<noteq> 0 \<and> 999999 < adjusted y then Inl Overflow else Inr y)"

text \<open>\<^verbatim>\<open>a + 1\<close>: exact on an \<^verbatim>\<open>int\<close> (and a \<^verbatim>\<open>bool\<close>), rounded on a \<^verbatim>\<open>Decimal\<close>, a TypeError on
  anything else.\<close>

fun py_add1 :: "json \<Rightarrow> error + rat" where
  "py_add1 (JBool b) = Inr (if b then 2 else 1)"
| "py_add1 (JInt i) = Inr (of_int (i + 1))"
| "py_add1 (JDec r) = decimal_round (r + 1)"
| "py_add1 JNull = Inl TypeError"
| "py_add1 (JStr s) = Inl TypeError"
| "py_add1 (JArr xs) = Inl TypeError"
| "py_add1 (JObj kvs) = Inl TypeError"

text \<open>\<^verbatim>\<open>a + 1 != b\<close>: the sum is compared numerically with \<open>b\<close>, whatever the types of the two
  numbers; a \<open>b\<close> that is no number is unequal to every number.\<close>

definition py_add1_ne :: "json \<Rightarrow> json \<Rightarrow> error + bool" where
  "py_add1_ne a b = (case py_add1 a of Inl e \<Rightarrow> Inl e | Inr x \<Rightarrow> Inr (Some x \<noteq> py_num b))"

text \<open>Dictionary keys: equal numbers are one key whatever their type, lists and dicts are
  unhashable.\<close>

datatype pykey = KNone | KNum rat | KStr string

fun hashable :: "json \<Rightarrow> error + pykey" where
  "hashable JNull = Inr KNone"
| "hashable (JBool b) = Inr (KNum (if b then 1 else 0))"
| "hashable (JInt i) = Inr (KNum (of_int i))"
| "hashable (JDec r) = Inr (KNum r)"
| "hashable (JStr s) = Inr (KStr s)"
| "hashable (JArr xs) = Inl TypeError"
| "hashable (JObj kvs) = Inl TypeError"

section \<open>The HitBTC adapter (cryptofeed/exchange/hitbtc.py)\<close>

text \<open>
  What the adapter calls but does not define is a parameter of the model, collected in
  \<open>feed\<close>: the standard library's \<^verbatim>\<open>Decimal\<close> constructor (restricted to finite results),
  \<^verbatim>\<open>Feed.exchange_symbol_to_std_symbol\<close> with its \<^verbatim>\<open>allow_missing\<close> flag,
  \<^verbatim>\<open>Feed.maybe_decimal\<close> and \<^verbatim>\<open>timestamp_normalize\<close> applied to the feed's id.  Each may
  raise.  Timestamps are carried, never computed with; they are rationals.
\<close>

record feed =
  Decimal :: "json \<Rightarrow> error + rat"
  exchange_symbol_to_std_symbol :: "json \<Rightarrow> bool \<Rightarrow> error + string"
  maybe_decimal :: "json \<Rightarrow> error + rat option"
  timestamp_normalize :: "json \<Rightarrow> error + rat"

text \<open>\<^verbatim>\<open>cryptofeed.defines\<close>: \<^verbatim>\<open>BID = 'bid'\<close>, \<^verbatim>\<open>ASK = 'ask'\<close>, \<^verbatim>\<open>BUY = 'buy'\<close>,
  \<^verbatim>\<open>SELL = 'sell'\<close>.\<close>

datatype side = BID | ASK

fun side_key :: "side \<Rightarrow> string" where
  "side_key BID = ''bid''"
| "side_key ASK = ''ask''"

datatype trade_side = BUY | SELL

text \<open>One side of a book is a \<^verbatim>\<open>SortedDict\<close> from price to size: a finite map, whose order is
  that of its keys.  \<^verbatim>\<open>l2_book[pair]\<close> is \<^verbatim>\<open>{ASK: sd(), BID: sd()}\<close>.\<close>

type_synonym levels = "rat \<rightharpoonup> rat"

record book =
  bid :: levels
  ask :: levels

fun get_side :: "side \<Rightarrow> book \<Rightarrow> levels" where
  "get_side BID b = bid b"
| "get_side ASK b = ask b"

fun set_side :: "side \<Rightarrow> levels \<Rightarrow> book \<Rightarrow> book" where
  "set_side BID l b = b\<lparr>bid := l\<rparr>"
| "set_side ASK l b = b\<lparr>ask := l\<rparr>"

text \<open>\<^verbatim>\<open>delta = {BID: [], ASK: []}\<close>\<close>

record delta =
  delta_bid :: "(rat \<times> rat) list"
  delta_ask :: "(rat \<times> rat) list"

definition empty_delta :: delta where
  "empty_delta = \<lparr>delta_bid = [], delta_ask = []\<rparr>"

fun get_delta :: "side \<Rightarrow> delta \<Rightarrow> (rat \<times> rat) list" where
  "get_delta BID d = delta_bid d"
| "get_delta ASK d = delta_ask d"

fun delta_append :: "side \<Rightarrow> rat \<times> rat \<Rightarrow> delta \<Rightarrow> delta" where
  "delta_append BID e d = d\<lparr>delta_bid := delta_bid d @ [e]\<rparr>"
| "delta_append ASK e d = d\<lparr>delta_ask := delta_ask d @ [e]\<rparr>"

text \<open>The events handed to the sink, with the keyword arguments of the call.\<close>

record ticker_event =
  tk_symbol :: string
  tk_bid :: "rat option"
  tk_ask :: "rat option"
  tk_timestamp :: rat
  tk_receipt_timestamp :: rat

record trade_event =
  tr_symbol :: string
  tr_side :: trade_side
  tr_amount :: rat
  tr_price :: rat
  tr_order_id :: json
  tr_timestamp :: rat
  tr_receipt_timestamp :: rat

record book_event =
  bk_book :: book
  bk_symbol :: string
  bk_forced :: bool
  bk_delta :: "delta option"
  bk_timestamp :: rat
  bk_receipt_timestamp :: rat

datatype event = TickerEv ticker_event | TradeEv trade_event | BookEv book_event

datatype log_entry =
    LOG_missing_sequence json
  | LOG_invalid_message json
  | LOG_server_error json

text \<open>The adapter's state: \<^verbatim>\<open>self.seq_no\<close>, \<^verbatim>\<open>self.l2_book\<close>, the events emitted so far and
  the log lines written so far, both oldest first.

  Modelled from the spec: \<^verbatim>\<open>l2_book\<close> is an attribute of the base class \<^verbatim>\<open>Feed\<close>, which is not
  among the sources.  It holds, per symbol, the two maps from price to size; it is taken to
  be a plain dict, so that reading the book of a symbol it does not hold raises KeyError.\<close>

record hitbtc =
  seq_no :: "pykey \<rightharpoonup> json"
  l2_book :: "string \<rightharpoonup> book"
  events :: "event list"
  logged :: "log_entry list"

datatype outcome = Returned | Raised error

text \<open>Modelled from the spec: \<^verbatim>\<open>Feed.callback\<close> and \<^verbatim>\<open>Feed.book_callback\<close> are not among the
  sources; by the sink's contract they hand the event with its fields to the consumer.  The
  model appends the event to the stream.\<close>

definition callback :: "event \<Rightarrow> hitbtc \<Rightarrow> hitbtc" where
  "callback ev st = st\<lparr>events := events st @ [ev]\<rparr>"

definition book_callback :: "book \<Rightarrow> string \<Rightarrow> bool \<Rightarrow> delta option \<Rightarrow> rat \<Rightarrow> rat \<Rightarrow> hitbtc \<Rightarrow> hitbtc" where
  "book_callback b pair forced d timestamp receipt st =
     st\<lparr>events := events st @ [BookEv \<lparr>bk_book = b, bk_symbol = pair, bk_forced = forced,
        bk_delta = d, bk_timestamp = timestamp, bk_receipt_timestamp = receipt\<rparr>]\<rparr>"

subsection \<open>\<^verbatim>\<open>_ticker\<close>\<close>

definition ticker_args :: "feed \<Rightarrow> json \<Rightarrow> rat \<Rightarrow> error + ticker_event" where
  "ticker_args env msg timestamp =
     ebind (py_getitem msg ''symbol'') (\<lambda>s.
     ebind (exchange_symbol_to_std_symbol env s True) (\<lambda>symbol.
     ebind (py_getitem msg ''bid'') (\<lambda>b.
     ebind (maybe_decimal env b) (\<lambda>bid'.
     ebind (py_getitem msg ''ask'') (\<lambda>a.
     ebind (maybe_decimal env a) (\<lambda>ask'.
     ebind (py_getitem msg ''timestamp'') (\<lambda>t.
     ebind (timestamp_normalize env t) (\<lambda>ts.
     Inr \<lparr>tk_symbol = symbol, tk_bid = bid', tk_ask = ask', tk_timestamp = ts,
          tk_receipt_timestamp = timestamp\<rparr>))))))))"

definition HitBTC_ticker :: "feed \<Rightarrow> json \<Rightarrow> rat \<Rightarrow> hitbtc \<Rightarrow> outcome \<times> hitbtc" where
  "HitBTC_ticker env msg timestamp st =
     (case ticker_args env msg timestamp of
        Inl e \<Rightarrow> (Raised e, st)
      | Inr ev \<Rightarrow> (Returned, callback (TickerEv ev) st))"

subsection \<open>\<^verbatim>\<open>_book\<close>\<close>

text \<open>\<^verbatim>\<open>price = Decimal(entry['price'])\<close>, \<^verbatim>\<open>size = Decimal(entry['size'])\<close>: the first two
  lines of the loop body, in \<^verbatim>\<open>_book\<close> and in \<^verbatim>\<open>_snapshot\<close>.\<close>

definition entry_level :: "feed \<Rightarrow> json \<Rightarrow> error + rat \<times> rat" where
  "entry_level env entry =
     ebind (py_getitem entry ''price'') (\<lambda>p.
     ebind (Decimal env p) (\<lambda>price.
     ebind (py_getitem entry ''size'') (\<lambda>s.
     ebind (Decimal env s) (\<lambda>sz.
     Inr (price, sz)))))"

text \<open>The body of the inner loop, for one entry of one side.  It raises before it writes,
  or it writes the book and the delta.\<close>

definition book_entry ::
  "feed \<Rightarrow> string \<Rightarrow> side \<Rightarrow> json \<Rightarrow> (string \<rightharpoonup> book) \<Rightarrow> delta \<Rightarrow> error + (string \<rightharpoonup> book) \<times> delta" where
  "book_entry env pair sd entry l2 d =
     ebind (entry_level env entry) (\<lambda>(price, sz).
       case l2 pair of
         None \<Rightarrow> Inl KeyError
       | Some b \<Rightarrow>
           if sz = 0 then
             Inr (if price \<in> dom (get_side sd b)
                  then l2(pair \<mapsto> set_side sd ((get_side sd b)(price := None)) b)
                  else l2,
                  delta_append sd (price, 0) d)
           else
             Inr (l2(pair \<mapsto> set_side sd ((get_side sd b)(price \<mapsto> sz)) b),
                  delta_append sd (price, sz) d))"

text \<open>The inner loop.  An entry that raises ends it; what earlier entries wrote to the book
  stays written.\<close>

fun book_entries ::
  "feed \<Rightarrow> string \<Rightarrow> side \<Rightarrow> json list \<Rightarrow> (string \<rightharpoonup> book) \<Rightarrow> delta \<Rightarrow> (error + delta) \<times> (string \<rightharpoonup> book)" where
  "book_entries env pair sd [] l2 d = (Inr d, l2)"
| "book_entries env pair sd (entry # rest) l2 d =
     (case book_entry env pair sd entry l2 d of
        Inl e \<Rightarrow> (Inl e, l2)
      | Inr (l2', d') \<Rightarrow> book_entries env pair sd rest l2' d')"

definition book_side ::
  "feed \<Rightarrow> string \<Rightarrow> json \<Rightarrow> side \<Rightarrow> (string \<rightharpoonup> book) \<Rightarrow> delta \<Rightarrow> (error + delta) \<times> (string \<rightharpoonup> book)" where
  "book_side env pair msg sd l2 d =
     (case ebind (py_getitem msg (side_key sd)) py_iter of
        Inl e \<Rightarrow> (Inl e, l2)
      | Inr entries \<Rightarrow> book_entries env pair sd entries l2 d)"

definition HitBTC_book :: "feed \<Rightarrow> json \<Rightarrow> rat \<Rightarrow> hitbtc \<Rightarrow> outcome \<times> hitbtc" where
  "HitBTC_book env msg timestamp st =
     (case ebind (py_getitem msg ''symbol'') (\<lambda>s. exchange_symbol_to_std_symbol env s True) of
        Inl e \<Rightarrow> (Raised e, st)
      | Inr pair \<Rightarrow>
          (case book_side env pair msg BID (l2_book st) empty_delta of
             (Inl e, l2) \<Rightarrow> (Raised e, st\<lparr>l2_book := l2\<rparr>)
           | (Inr d, l2) \<Rightarrow>
               (case book_side env pair msg ASK l2 d of
                  (Inl e, l2') \<Rightarrow> (Raised e, st\<lparr>l2_book := l2'\<rparr>)
                | (Inr d', l2') \<Rightarrow>
                    (case l2' pair of
                       None \<Rightarrow> (Raised KeyError, st\<lparr>l2_book := l2'\<rparr>)
                     | Some b \<Rightarrow>
                         (Returned,
                          book_callback b pair False (Some d') timestamp timestamp
                            (st\<lparr>l2_book := l2'\<rparr>))))))"

subsection \<open>\<^verbatim>\<open>_snapshot\<close>\<close>

definition snapshot_entry :: "feed \<Rightarrow> side \<Rightarrow> json \<Rightarrow> book \<Rightarrow> error + book" where
  "snapshot_entry env sd entry b =
     ebind (entry_level env entry) (\<lambda>(price, sz).
       Inr (set_side sd ((get_side sd b)(price \<mapsto> sz)) b))"

fun snapshot_entries :: "feed \<Rightarrow> side \<Rightarrow> json list \<Rightarrow> book \<Rightarrow> error option \<times> book" where
  "snapshot_entries env sd [] b = (None, b)"
| "snapshot_entries env sd (entry # rest) b =
     (case snapshot_entry env sd entry b of
        Inl e \<Rightarrow> (Some e, b)
      | Inr b' \<Rightarrow> snapshot_entries env sd rest b')"

definition snapshot_side :: "feed \<Rightarrow> json \<Rightarrow> side \<Rightarrow> book \<Rightarrow> error option \<times> book" where
  "snapshot_side env msg sd b =
     (case ebind (py_getitem msg (side_key sd)) py_iter of
        Inl e \<Rightarrow> (Some e, b)
      | Inr entries \<Rightarrow> snapshot_entries env sd entries b)"

text \<open>\<^verbatim>\<open>self.l2_book[pair]\<close> is replaced by two empty maps before the first entry is read, so
  at every exit the dict holds the book as filled so far.\<close>

definition HitBTC_snapshot :: "feed \<Rightarrow> json \<Rightarrow> rat \<Rightarrow> hitbtc \<Rightarrow> outcome \<times> hitbtc" where
  "HitBTC_snapshot env msg timestamp st =
     (case ebind (py_getitem msg ''symbol'') (\<lambda>s. exchange_symbol_to_std_symbol env s False) of
        Inl e \<Rightarrow> (Raised e, st)
      | Inr pair \<Rightarrow>
          (case snapshot_side env msg BID \<lparr>bid = Map.empty, ask = Map.empty\<rparr> of
             (Some e, b) \<Rightarrow> (Raised e, st\<lparr>l2_book := (l2_book st)(pair \<mapsto> b)\<rparr>)
           | (None, b) \<Rightarrow>
               (case snapshot_side env msg ASK b of
                  (Some e, b') \<Rightarrow> (Raised e, st\<lparr>l2_book := (l2_book st)(pair \<mapsto> b')\<rparr>)
                | (None, b') \<Rightarrow>
                    (Returned,
                     book_callback b' pair True None timestamp timestamp
                       (st\<lparr>l2_book := (l2_book st)(pair \<mapsto> b')\<rparr>)))))"

subsection \<open>\<^verbatim>\<open>_trades\<close>\<close>

text \<open>The keyword arguments of the call for one entry of the batch.  The local
  \<^verbatim>\<open>timestamp\<close> has been assigned the entry's normalized timestamp when the call is made,
  and is passed twice.\<close>

definition trade_args :: "feed \<Rightarrow> string \<Rightarrow> json \<Rightarrow> error + trade_event" where
  "trade_args env pair update =
     ebind (py_getitem update ''price'') (\<lambda>p.
     ebind (Decimal env p) (\<lambda>price.
     ebind (py_getitem update ''quantity'') (\<lambda>q.
     ebind (Decimal env q) (\<lambda>quantity.
     ebind (py_getitem update ''side'') (\<lambda>s.
     ebind (py_getitem update ''id'') (\<lambda>order_id.
     ebind (py_getitem update ''timestamp'') (\<lambda>t.
     ebind (timestamp_normalize env t) (\<lambda>timestamp.
     Inr \<lparr>tr_symbol = pair, tr_side = (if s = JStr ''buy'' then BUY else SELL),
          tr_amount = quantity, tr_price = price, tr_order_id = order_id,
          tr_timestamp = timestamp, tr_receipt_timestamp = timestamp\<rparr>))))))))"

text \<open>The loop over the batch, with the local \<^verbatim>\<open>timestamp\<close> as it stands before each
  entry: the argument of the handler at first, the previous entry's timestamp later.\<close>

fun trades_loop :: "feed \<Rightarrow> string \<Rightarrow> json list \<Rightarrow> rat \<Rightarrow> hitbtc \<Rightarrow> outcome \<times> hitbtc" where
  "trades_loop env pair [] timestamp st = (Returned, st)"
| "trades_loop env pair (update # rest) timestamp st =
     (case trade_args env pair update of
        Inl e \<Rightarrow> (Raised e, st)
      | Inr ev \<Rightarrow> trades_loop env pair rest (tr_timestamp ev) (callback (TradeEv ev) st))"

definition HitBTC_trades :: "feed \<Rightarrow> json \<Rightarrow> rat \<Rightarrow> hitbtc \<Rightarrow> outcome \<times> hitbtc" where
  "HitBTC_trades env msg timestamp st =
     (case ebind (py_getitem msg ''symbol'') (\<lambda>s. exchange_symbol_to_std_symbol env s True) of
        Inl e \<Rightarrow> (Raised e, st)
      | Inr pair \<Rightarrow>
          (case ebind (py_getitem msg ''data'') py_iter of
             Inl e \<Rightarrow> (Raised e, st)
           | Inr updates \<Rightarrow> trades_loop env pair updates timestamp st))"

subsection \<open>\<^verbatim>\<open>message_handler\<close>\<close>

text \<open>Lines 98 to 104: the sequence check, made before any dispatch.\<close>

definition carries_sequence :: "json \<Rightarrow> error + bool" where
  "carries_sequence msg =
     ebind (py_contains ''params'' msg) (\<lambda>has_params.
       if has_params then ebind (py_getitem msg ''params'') (py_contains ''sequence'')
       else Inr False)"

definition sequence_check :: "json \<Rightarrow> hitbtc \<Rightarrow> outcome \<times> hitbtc" where
  "sequence_check msg st =
     (case carries_sequence msg of
        Inl e \<Rightarrow> (Raised e, st)
      | Inr False \<Rightarrow> (Returned, st)
      | Inr True \<Rightarrow>
          (case ebind (py_getitem msg ''params'') (\<lambda>p. py_getitem p ''symbol'') of
             Inl e \<Rightarrow> (Raised e, st)
           | Inr pair \<Rightarrow>
               (case hashable pair of
                  Inl e \<Rightarrow> (Raised e, st)
                | Inr k \<Rightarrow>
                    (case ebind (py_getitem msg ''params'') (\<lambda>p. py_getitem p ''sequence'') of
                       Inl e \<Rightarrow> (Raised e, st)
                     | Inr sequence \<Rightarrow>
                         (case seq_no st k of
                            None \<Rightarrow> (Returned, st\<lparr>seq_no := (seq_no st)(k \<mapsto> sequence)\<rparr>)
                          | Some prev \<Rightarrow>
                              (case py_add1_ne prev sequence of
                                 Inl e \<Rightarrow> (Raised e, st)
                               | Inr True \<Rightarrow>
                                   (Raised MissingSequenceNumber,
                                    st\<lparr>logged := logged st @ [LOG_missing_sequence pair]\<rparr>)
                               | Inr False \<Rightarrow>
                                   (Returned, st\<lparr>seq_no := (seq_no st)(k \<mapsto> sequence)\<rparr>)))))))"

text \<open>Lines 106 to 124: the dispatch on \<^verbatim>\<open>method\<close>, then on \<^verbatim>\<open>channel\<close>, then the plain
  envelope.\<close>

definition with_item :: "json \<Rightarrow> string \<Rightarrow> (json \<Rightarrow> hitbtc \<Rightarrow> outcome \<times> hitbtc) \<Rightarrow> hitbtc \<Rightarrow> outcome \<times> hitbtc" where
  "with_item msg k handler st =
     (case py_getitem msg k of Inl e \<Rightarrow> (Raised e, st) | Inr v \<Rightarrow> handler v st)"

definition LOG :: "log_entry \<Rightarrow> hitbtc \<Rightarrow> outcome \<times> hitbtc" where
  "LOG l st = (Returned, st\<lparr>logged := logged st @ [l]\<rparr>)"

definition dispatch :: "feed \<Rightarrow> json \<Rightarrow> rat \<Rightarrow> hitbtc \<Rightarrow> outcome \<times> hitbtc" where
  "dispatch env msg timestamp st =
     (case py_contains ''method'' msg of
        Inl e \<Rightarrow> (Raised e, st)
      | Inr True \<Rightarrow>
          with_item msg ''method'' (\<lambda>m.
            if m = JStr ''ticker'' then
              with_item msg ''params'' (\<lambda>p. HitBTC_ticker env p timestamp)
            else if m = JStr ''snapshotOrderbook'' then
              with_item msg ''params'' (\<lambda>p. HitBTC_snapshot env p timestamp)
            else if m = JStr ''updateOrderbook'' then
              with_item msg ''params'' (\<lambda>p. HitBTC_book env p timestamp)
            else if m = JStr ''updateTrades'' \<or> m = JStr ''snapshotTrades'' then
              with_item msg ''params'' (\<lambda>p. HitBTC_trades env p timestamp)
            else LOG (LOG_invalid_message msg)) st
      | Inr False \<Rightarrow>
          (case py_contains ''channel'' msg of
             Inl e \<Rightarrow> (Raised e, st)
           | Inr True \<Rightarrow>
               with_item msg ''channel'' (\<lambda>c.
                 if c = JStr ''ticker'' then
                   with_item msg ''data'' (\<lambda>p. HitBTC_ticker env p timestamp)
                 else LOG (LOG_invalid_message msg)) st
           | Inr False \<Rightarrow>
               (case py_contains ''error'' msg of
                  Inl e \<Rightarrow> (Raised e, st)
                | Inr True \<Rightarrow> LOG (LOG_server_error msg) st
                | Inr False \<Rightarrow>
                    with_item msg ''result'' (\<lambda>r.
                      if \<not> py_truthy r then LOG (LOG_server_error msg)
                      else (\<lambda>st. (Returned, st))) st)))"

text \<open>The handler, on the decoded frame.\<close>

definition message_handler :: "feed \<Rightarrow> json \<Rightarrow> rat \<Rightarrow> hitbtc \<Rightarrow> outcome \<times> hitbtc" where
  "message_handler env msg timestamp st =
     (case sequence_check msg st of
        (Raised e, st') \<Rightarrow> (Raised e, st')
      | (Returned, st') \<Rightarrow> dispatch env msg timestamp st')"

section \<open>Connections (cryptofeed/connection.py)\<close>

text \<open>
  A method of a connection is a function of the connection and of what the outside world
  answers (the response of the server, the readings of \<^verbatim>\<open>time.time()\<close>).  It returns its
  result or the error it raises, the effects it had in the order it had them, and the
  connection as it leaves it.  \<open>sink\<close> says whether \<^verbatim>\<open>raw_data_callback\<close> is set.
  \<^verbatim>\<open>LOG.debug\<close> lines are left out of the effects.
\<close>

record response =
  status :: int
  body :: string
  headers :: "(string \<times> string) list"

text \<open>The keyword arguments of a call of the sink.\<close>

datatype sink_context =
    Endpoint string
  | EndpointHeader string "(string \<times> string) list option"
  | SendTo string
  | ConnectTo string
  | NoContext

datatype effect =
    Sink "string option" rat string sink_context
  | RequestsGet string
  | RequestsPost string "string option"
  | ClientSession
  | Get string "(string \<times> string) list option"
  | Post string string "(string \<times> string) list option"
  | RaiseForStatus
  | WSConnect string
  | WSSend string
  | CloseTransport
  | Sleep rat
  | LOG_warning string
  | LOG_error string
  | LOG_info string

text \<open>\<^verbatim>\<open>raise_for_status\<close> of the two HTTP libraries: \<^verbatim>\<open>requests\<close> raises on a status from 400
  to 599, \<^verbatim>\<open>aiohttp\<close> on a status of 400 or more.\<close>

definition requests_raises :: "response \<Rightarrow> bool" where
  "requests_raises r \<longleftrightarrow> 400 \<le> status r \<and> status r < 600"

definition aiohttp_raises :: "response \<Rightarrow> bool" where
  "aiohttp_raises r \<longleftrightarrow> 400 \<le> status r"

subsection \<open>\<^verbatim>\<open>HTTPSync\<close>\<close>

text \<open>\<^verbatim>\<open>str(uuid)\<close>, where \<^verbatim>\<open>uuid\<close> defaults to \<^verbatim>\<open>None\<close>.\<close>

fun str_uuid :: "string option \<Rightarrow> string" where
  "str_uuid None = ''None''"
| "str_uuid (Some u) = u"

text \<open>What \<^verbatim>\<open>process_response\<close> returns: \<^verbatim>\<open>r.json()\<close> (of the body), \<^verbatim>\<open>r.text\<close> or \<^verbatim>\<open>r\<close>.\<close>

datatype sync_value = Json string | Text string | Response response

definition process_response ::
  "bool \<Rightarrow> rat \<Rightarrow> response \<Rightarrow> string \<Rightarrow> bool \<Rightarrow> bool \<Rightarrow> string option \<Rightarrow> (error + sync_value) \<times> effect list" where
  "process_response sink now r address as_json as_text uuid =
     (let effects = (if sink then [Sink (Some (body r)) now (str_uuid uuid) (Endpoint address)] else [])
                    @ [RaiseForStatus]
      in if requests_raises r then (Inl HTTPError, effects)
         else if as_json then (Inr (Json (body r)), effects)
         else if as_text then (Inr (Text (body r)), effects)
         else (Inr (Response r), effects))"

definition HTTPSync_read ::
  "bool \<Rightarrow> rat \<Rightarrow> response \<Rightarrow> string \<Rightarrow> bool \<Rightarrow> bool \<Rightarrow> string option \<Rightarrow> (error + sync_value) \<times> effect list" where
  "HTTPSync_read sink now r address as_json as_text uuid =
     (case process_response sink now r address as_json as_text uuid of
        (res, effects) \<Rightarrow> (res, RequestsGet address # effects))"

definition HTTPSync_write ::
  "bool \<Rightarrow> rat \<Rightarrow> response \<Rightarrow> string \<Rightarrow> string option \<Rightarrow> bool \<Rightarrow> bool \<Rightarrow> string option \<Rightarrow> (error + sync_value) \<times> effect list" where
  "HTTPSync_write sink now r address data as_json as_text uuid =
     (case process_response sink now r address as_json as_text uuid of
        (res, effects) \<Rightarrow> (res, RequestsPost address data # effects))"

subsection \<open>\<^verbatim>\<open>AsyncConnection\<close>\<close>

text \<open>\<^verbatim>\<open>self.conn\<close> is \<^verbatim>\<open>None\<close> or a session or socket, of which only \<^verbatim>\<open>closed\<close> is read.
  \<open>ident\<close> is \<^verbatim>\<open>self.id\<close>, which the property \<^verbatim>\<open>uuid\<close> returns.\<close>

record transport =
  closed :: bool

record async_connection =
  ident :: string
  received :: int
  sent :: int
  last_message :: "rat option"
  conn :: "transport option"

text \<open>\<^verbatim>\<open>f'{n}'\<close> for the counter, which starts at 0 and is only ever incremented.\<close>

definition digit_char :: "nat \<Rightarrow> char" where
  "digit_char d = ''0123456789'' ! d"

function str_nat :: "nat \<Rightarrow> string" where
  "str_nat n = (if n < 10 then [digit_char n] else str_nat (n div 10) @ [digit_char (n mod 10)])"
  by pat_completeness auto
termination
  by (relation "measure (\<lambda>n. n)") auto

text \<open>\<^verbatim>\<open>AsyncConnection.__init__\<close>: the class attribute \<^verbatim>\<open>AsyncConnection.conn_count\<close>, shared by
  every subclass, is passed in and returned incremented.\<close>

definition AsyncConnection_init :: "string \<Rightarrow> nat \<Rightarrow> async_connection \<times> nat" where
  "AsyncConnection_init conn_id conn_count =
     (\<lparr>ident = conn_id, received = 0, sent = 0, last_message = None, conn = None\<rparr>,
      conn_count + 1)"

definition is_open :: "'a async_connection_scheme \<Rightarrow> bool" where
  "is_open c = (case conn c of None \<Rightarrow> False | Some t \<Rightarrow> \<not> closed t)"

definition close :: "'a async_connection_scheme \<Rightarrow> effect list \<times> 'a async_connection_scheme" where
  "close c =
     (if is_open c then ([CloseTransport, LOG_info ''closed connection''], c\<lparr>conn := None\<rparr>)
      else ([], c))"

subsection \<open>\<^verbatim>\<open>HTTPAsyncConn\<close>\<close>

text \<open>The f-string is evaluated before \<^verbatim>\<open>super().__init__\<close> increments the counter.\<close>

definition HTTPAsyncConn_init :: "string \<Rightarrow> nat \<Rightarrow> async_connection \<times> nat" where
  "HTTPAsyncConn_init conn_id conn_count =
     AsyncConnection_init (conn_id @ ''.http.'' @ str_nat conn_count) conn_count"

definition HTTPAsyncConn_open :: "'a async_connection_scheme \<Rightarrow> effect list \<times> 'a async_connection_scheme" where
  "HTTPAsyncConn_open c =
     (if is_open c then ([LOG_warning ''HTTP session already created''], c)
      else ([ClientSession], c\<lparr>conn := Some \<lparr>closed = False\<rparr>, sent := 0, received := 0\<rparr>))"

definition HTTPAsyncConn_read ::
  "bool \<Rightarrow> rat \<Rightarrow> response \<Rightarrow> string \<Rightarrow> (string \<times> string) list option \<Rightarrow> bool \<Rightarrow>
   'a async_connection_scheme \<Rightarrow>
   (error + string \<times> (string \<times> string) list option) \<times> effect list \<times> 'a async_connection_scheme" where
  "HTTPAsyncConn_read sink now r address header return_headers c =
     (case (if \<not> is_open c then HTTPAsyncConn_open c else ([], c)) of
        (opened, c0) \<Rightarrow>
          (let c1 = c0\<lparr>last_message := Some now, received := received c0 + 1\<rparr>;
               hdr = (if return_headers then Some (headers r) else None);
               effects = opened @ [Get address header]
                 @ (if sink then [Sink (Some (body r)) now (ident c1) (EndpointHeader address hdr)] else [])
                 @ [RaiseForStatus]
           in if aiohttp_raises r then (Inl HTTPError, effects, c1)
              else (Inr (body r, hdr), effects, c1)))"

definition HTTPAsyncConn_write ::
  "bool \<Rightarrow> rat \<Rightarrow> response \<Rightarrow> string \<Rightarrow> string \<Rightarrow> (string \<times> string) list option \<Rightarrow>
   'a async_connection_scheme \<Rightarrow> (error + string) \<times> effect list \<times> 'a async_connection_scheme" where
  "HTTPAsyncConn_write sink now r address msg header c =
     (case (if \<not> is_open c then HTTPAsyncConn_open c else ([], c)) of
        (opened, c0) \<Rightarrow>
          (let c1 = c0\<lparr>sent := sent c0 + 1\<rparr>;
               effects = opened @ [Post address msg header]
                 @ (if sink then [Sink (Some (body r)) now (ident c1) (SendTo address)] else [])
                 @ [RaiseForStatus]
           in if aiohttp_raises r then (Inl HTTPError, effects, c1)
              else (Inr (body r), effects, c1)))"

subsection \<open>\<^verbatim>\<open>ThrottledHTTPAsyncConn\<close>\<close>

text \<open>\<^verbatim>\<open>throttle_limit\<close> is \<open>None\<close> for the default \<^verbatim>\<open>float('inf')\<close>.  \<^verbatim>\<open>next_reset\<close> is \<open>None\<close>
  until the first read.  Clock readings are rationals.\<close>

record throttled = async_connection +
  throttle_limit :: "int option"
  throttle_interval :: int
  used_limit :: int
  next_reset :: "int option"

definition ThrottledHTTPAsyncConn_init :: "string \<Rightarrow> int option \<Rightarrow> int \<Rightarrow> nat \<Rightarrow> throttled \<times> nat" where
  "ThrottledHTTPAsyncConn_init conn_id limit interval conn_count =
     (case HTTPAsyncConn_init conn_id conn_count of
        (c, n) \<Rightarrow>
          (async_connection.extend c
             \<lparr>throttle_limit = limit, throttle_interval = interval, used_limit = 0,
              next_reset = None\<rparr>, n))"

text \<open>\<^verbatim>\<open>int(now)\<close> truncates towards zero; \<^verbatim>\<open>//\<close> is floor division.\<close>

definition py_int :: "rat \<Rightarrow> int" where
  "py_int x = (if 0 \<le> x then \<lfloor>x\<rfloor> else \<lceil>x\<rceil>)"

definition next_minute :: "rat \<Rightarrow> int" where
  "next_minute now = (py_int now div 60 + 1) * 60"

text \<open>Lines 159 to 167: the weight is added, the window is started if there is none
  (\<^verbatim>\<open>not self.next_reset\<close> also holds of 0), and restarted at this call's weight if it has
  expired.  The result is \<^verbatim>\<open>used_limit\<close> and \<^verbatim>\<open>next_reset\<close> as line 171 finds them.\<close>

definition account :: "int \<Rightarrow> rat \<Rightarrow> throttled \<Rightarrow> int \<times> int" where
  "account weight now c =
     (let used = used_limit c + weight;
          reset = (case next_reset c of
                     None \<Rightarrow> next_minute now
                   | Some n \<Rightarrow> if n = 0 then next_minute now else n)
      in if of_int reset < now then (weight, next_minute now) else (used, reset))"

definition limit_reached :: "int \<Rightarrow> int option \<Rightarrow> bool" where
  "limit_reached used limit = (case limit of None \<Rightarrow> False | Some l \<Rightarrow> l \<le> used)"

text \<open>Lines 159 to 176, the admission control of \<^verbatim>\<open>read\<close>.  \<open>now\<close>, \<open>t_wait\<close> and \<open>t_wake\<close>
  are the readings of \<^verbatim>\<open>time.time()\<close> at lines 160, 172 and 175; the last two are read
  only when the read is suspended.  The result is the duration passed to
  \<^verbatim>\<open>asyncio.sleep\<close>, if the read is suspended.\<close>

definition throttle :: "int \<Rightarrow> rat \<Rightarrow> rat \<Rightarrow> rat \<Rightarrow> throttled \<Rightarrow> rat option \<times> throttled" where
  "throttle weight now t_wait t_wake c =
     (case account weight now c of
        (used, reset) \<Rightarrow>
          if limit_reached used (throttle_limit c) then
            (Some (of_int reset - t_wait),
             c\<lparr>next_reset := Some (next_minute t_wake), used_limit := weight\<rparr>)
          else (None, c\<lparr>next_reset := Some reset, used_limit := used\<rparr>))"

definition ThrottledHTTPAsyncConn_read ::
  "bool \<Rightarrow> int \<Rightarrow> rat \<Rightarrow> rat \<Rightarrow> rat \<Rightarrow> rat \<Rightarrow> response \<Rightarrow> string \<Rightarrow> (string \<times> string) list option \<Rightarrow> bool \<Rightarrow>
   throttled \<Rightarrow> (error + string \<times> (string \<times> string) list option) \<times> effect list \<times> throttled" where
  "ThrottledHTTPAsyncConn_read sink weight now t_wait t_wake t_read r address header return_headers c =
     (case throttle weight now t_wait t_wake c of
        (slept, c') \<Rightarrow>
          (case HTTPAsyncConn_read sink t_read r address header return_headers c' of
             (res, effects, c'') \<Rightarrow>
               (res,
                (case slept of None \<Rightarrow> [] | Some d \<Rightarrow> [LOG_info ''Throttling kicked in'', Sleep d])
                @ effects, c'')))"

subsection \<open>\<^verbatim>\<open>HTTPPoll\<close>\<close>

record http_poll = async_connection +
  addresses :: "string list"
  sleep :: rat
  delay :: rat

text \<open>The constructor adds the suffix itself and then calls \<^verbatim>\<open>HTTPAsyncConn.__init__\<close>, which
  adds it again.  \<^verbatim>\<open>address\<close> is one address or a list of addresses.\<close>

definition HTTPPoll_init :: "string + string list \<Rightarrow> string \<Rightarrow> rat \<Rightarrow> rat \<Rightarrow> nat \<Rightarrow> http_poll \<times> nat" where
  "HTTPPoll_init address conn_id delay' sleep' conn_count =
     (case HTTPAsyncConn_init (conn_id @ ''.http.'' @ str_nat conn_count) conn_count of
        (c, n) \<Rightarrow>
          (async_connection.extend c
             \<lparr>addresses = (case address of Inl a \<Rightarrow> [a] | Inr as \<Rightarrow> as),
              sleep = sleep', delay = delay'\<rparr>, n))"

text \<open>How an iteration of the generator ends, as far as the model follows it: it raises, or
  the consumer takes no further item (the supplied responses are used up), or the model's
  fuel for the outer \<^verbatim>\<open>while True\<close> is spent.\<close>

datatype ending = Raises error | Suspended | OutOfFuel

text \<open>The \<^verbatim>\<open>for addr in self.address\<close> loop.  Each GET takes the next supplied response and
  clock reading.  The result is \<open>None\<close> when the loop runs to its end.\<close>

fun poll_addresses ::
  "bool \<Rightarrow> (string \<times> string) list option \<Rightarrow> string list \<Rightarrow> (response \<times> rat) list \<Rightarrow> http_poll \<Rightarrow>
   ending option \<times> string list \<times> effect list \<times> http_poll \<times> (response \<times> rat) list" where
  "poll_addresses sink header [] inputs c = (None, [], [], c, inputs)"
| "poll_addresses sink header (addr # rest) inputs c =
     (if \<not> is_open c then
        (Some (Raises ConnectionClosed), [], [LOG_error ''connection closed in read()''], c, inputs)
      else
        (case inputs of
           [] \<Rightarrow> (Some Suspended, [], [], c, [])
         | (r, now) # inputs' \<Rightarrow>
             (let c1 = c\<lparr>received := received c + 1, last_message := Some now\<rparr>;
                  effects = [Get addr header]
                    @ (if sink then [Sink (Some (body r)) now (ident c1) (Endpoint addr)] else [])
                    @ [RaiseForStatus]
              in if aiohttp_raises r then (Some (Raises HTTPError), [], effects, c1, inputs')
                 else
                   (case poll_addresses sink header rest inputs' c1 of
                      (e, yielded, effects', c2, inputs'') \<Rightarrow>
                        (e, body r # yielded, effects @ [Sleep (sleep c)] @ effects', c2, inputs'')))))"

text \<open>\<^verbatim>\<open>HTTPPoll.read\<close>: the generator run for at most \<open>fuel\<close> rounds of the outer loop.  It
  returns how it ended, the bodies it yielded and its effects.\<close>

fun HTTPPoll_read ::
  "nat \<Rightarrow> bool \<Rightarrow> (string \<times> string) list option \<Rightarrow> (response \<times> rat) list \<Rightarrow> http_poll \<Rightarrow>
   ending \<times> string list \<times> effect list \<times> http_poll" where
  "HTTPPoll_read 0 sink header inputs c = (OutOfFuel, [], [], c)"
| "HTTPPoll_read (Suc fuel) sink header inputs c =
     (case poll_addresses sink header (addresses c) inputs c of
        (Some e, yielded, effects, c', inputs') \<Rightarrow> (e, yielded, effects, c')
      | (None, yielded, effects, c', inputs') \<Rightarrow>
          (case HTTPPoll_read fuel sink header inputs' c' of
             (e, yielded', effects', c'') \<Rightarrow>
               (e, yielded @ yielded', effects @ [Sleep (delay c)] @ effects', c'')))"

subsection \<open>\<^verbatim>\<open>WSAsyncConn\<close>\<close>

text \<open>\<open>ws_address\<close> is \<^verbatim>\<open>self.address\<close>; the keyword arguments kept for
  \<^verbatim>\<open>websockets.connect\<close> play no part and are left out.\<close>

record ws_connection = async_connection +
  ws_address :: string

definition WSAsyncConn_init :: "string \<Rightarrow> string \<Rightarrow> nat \<Rightarrow> (error + ws_connection) \<times> nat" where
  "WSAsyncConn_init address conn_id conn_count =
     (if \<not> prefix ''wss://'' address then (Inl ValueError, conn_count)
      else
        (case AsyncConnection_init (conn_id @ ''.ws.'' @ str_nat conn_count) conn_count of
           (c, n) \<Rightarrow> (Inr (async_connection.extend c \<lparr>ws_address = address\<rparr>), n)))"

text \<open>\<^verbatim>\<open>_open\<close>: the two counters are reset after the \<^verbatim>\<open>if\<close>, on both branches.\<close>

definition WSAsyncConn_open :: "bool \<Rightarrow> rat \<Rightarrow> ws_connection \<Rightarrow> effect list \<times> ws_connection" where
  "WSAsyncConn_open sink now c =
     (case (if is_open c then ([LOG_warning ''websocket already open''], c)
            else ((if sink then [Sink None now (ident c) (ConnectTo (ws_address c))] else [])
                  @ [WSConnect (ws_address c)],
                  c\<lparr>conn := Some \<lparr>closed = False\<rparr>\<rparr>)) of
        (effects, c') \<Rightarrow> (effects, c'\<lparr>sent := 0, received := 0\<rparr>))"

text \<open>The \<^verbatim>\<open>async for\<close> over the socket, for the frames it delivers, each with the clock
  reading at its arrival.\<close>

fun ws_frames :: "bool \<Rightarrow> (string \<times> rat) list \<Rightarrow> ws_connection \<Rightarrow> string list \<times> effect list \<times> ws_connection" where
  "ws_frames sink [] c = ([], [], c)"
| "ws_frames sink ((data, now) # rest) c =
     (let c1 = c\<lparr>received := received c + 1, last_message := Some now\<rparr>
      in case ws_frames sink rest c1 of
           (yielded, effects, c2) \<Rightarrow>
             (data # yielded,
              (if sink then [Sink (Some data) now (ident c1) NoContext] else []) @ effects, c2))"

definition WSAsyncConn_read ::
  "bool \<Rightarrow> (string \<times> rat) list \<Rightarrow> ws_connection \<Rightarrow> error option \<times> string list \<times> effect list \<times> ws_connection" where
  "WSAsyncConn_read sink frames c =
     (if \<not> is_open c then
        (Some ConnectionClosed, [], [LOG_error ''connection closed in read()''], c)
      else (case ws_frames sink frames c of (yielded, effects, c') \<Rightarrow> (None, yielded, effects, c')))"

definition WSAsyncConn_write ::
  "bool \<Rightarrow> rat \<Rightarrow> string \<Rightarrow> ws_connection \<Rightarrow> error option \<times> effect list \<times> ws_connection" where
  "WSAsyncConn_write sink now data c =
     (if \<not> is_open c then
        (Some ConnectionClosed, [LOG_error ''connection closed in write()''], c)
      else
        (None,
         (if sink then [Sink (Some data) now (ident c) (SendTo (ws_address c))] else []) @ [WSSend data],
         c\<lparr>sent := sent c + 1\<rparr>))"

section \<open>Vocabulary of the properties\<close>

subsection \<open>Order book\<close>

text \<open>The decoded \<open>(price, size)\<close> pairs of a list of entries, in the order of the frame, if
  every entry decodes; those of one side of a frame.\<close>

fun entry_levels :: "feed \<Rightarrow> json list \<Rightarrow> error + (rat \<times> rat) list" where
  "entry_levels env [] = Inr []"
| "entry_levels env (entry # rest) =
     ebind (entry_level env entry) (\<lambda>e. ebind (entry_levels env rest) (\<lambda>es. Inr (e # es)))"

definition side_levels :: "feed \<Rightarrow> json \<Rightarrow> side \<Rightarrow> error + (rat \<times> rat) list" where
  "side_levels env msg sd = ebind (ebind (py_getitem msg (side_key sd)) py_iter) (entry_levels env)"

text \<open>A delta entry as the specification words it: size 0 removes the level (which changes
  nothing when there is none), any other size sets it.\<close>

definition apply_level :: "rat \<times> rat \<Rightarrow> levels \<Rightarrow> levels" where
  "apply_level e m = (if snd e = 0 then m(fst e := None) else m(fst e \<mapsto> snd e))"

fun delta_extend :: "side \<Rightarrow> (rat \<times> rat) list \<Rightarrow> delta \<Rightarrow> delta" where
  "delta_extend BID es d = d\<lparr>delta_bid := delta_bid d @ es\<rparr>"
| "delta_extend ASK es d = d\<lparr>delta_ask := delta_ask d @ es\<rparr>"

text \<open>The invariant of the replica: no level of size 0, on either side of any symbol.\<close>

definition level_free :: "levels \<Rightarrow> bool" where
  "level_free m = (\<forall>p. m p \<noteq> Some 0)"

definition no_zero_levels :: "(string \<rightharpoonup> book) \<Rightarrow> bool" where
  "no_zero_levels lb = (\<forall>pair b. lb pair = Some b \<longrightarrow> level_free (bid b) \<and> level_free (ask b))"

text \<open>The entries a handler iterates over on one side of a frame, and the frames none of
  whose entries decodes to size 0.\<close>

definition side_entries :: "json \<Rightarrow> side \<Rightarrow> json list" where
  "side_entries msg sd =
     (case ebind (py_getitem msg (side_key sd)) py_iter of Inl e \<Rightarrow> [] | Inr entries \<Rightarrow> entries)"

definition nonzero_size :: "feed \<Rightarrow> json \<Rightarrow> bool" where
  "nonzero_size env entry =
     (case entry_level env entry of Inl e \<Rightarrow> True | Inr (price, sz) \<Rightarrow> sz \<noteq> 0)"

definition nonzero_sizes :: "feed \<Rightarrow> json \<Rightarrow> bool" where
  "nonzero_sizes env msg =
     list_all (nonzero_size env) (side_entries msg BID @ side_entries msg ASK)"

text \<open>A sequence of applications of the two book handlers, each to the \<^verbatim>\<open>params\<close> of a frame
  and a receipt timestamp.  An application that raises leaves the state it reached.\<close>

datatype book_op = SnapshotOp json rat | BookOp json rat

fun apply_op :: "feed \<Rightarrow> book_op \<Rightarrow> hitbtc \<Rightarrow> hitbtc" where
  "apply_op env (SnapshotOp msg timestamp) st = snd (HitBTC_snapshot env msg timestamp st)"
| "apply_op env (BookOp msg timestamp) st = snd (HitBTC_book env msg timestamp st)"

fun zero_free_snapshot :: "feed \<Rightarrow> book_op \<Rightarrow> bool" where
  "zero_free_snapshot env (SnapshotOp msg timestamp) = nonzero_sizes env msg"
| "zero_free_snapshot env (BookOp msg timestamp) = True"

subsection \<open>Frames\<close>

definition known_methods :: "json list" where
  "known_methods = [JStr ''ticker'', JStr ''snapshotOrderbook'', JStr ''updateOrderbook'',
                    JStr ''updateTrades'', JStr ''snapshotTrades'']"

text \<open>The batch a trades frame carries, and the normalized timestamp the exchange gave one
  entry of it.\<close>

definition batch :: "json \<Rightarrow> json list" where
  "batch msg = (case ebind (py_getitem msg ''data'') py_iter of Inl e \<Rightarrow> [] | Inr updates \<Rightarrow> updates)"

definition exchange_timestamp :: "feed \<Rightarrow> json \<Rightarrow> error + rat" where
  "exchange_timestamp env update = ebind (py_getitem update ''timestamp'') (timestamp_normalize env)"

subsection \<open>Examples\<close>

text \<open>A feed for the examples: \<^verbatim>\<open>Decimal\<close> and \<^verbatim>\<open>timestamp_normalize\<close> read JSON numbers, a symbol
  is its own standard name, \<^verbatim>\<open>maybe_decimal\<close> maps what is no number to \<^verbatim>\<open>None\<close>.\<close>

definition Decimal_of_number :: "json \<Rightarrow> error + rat" where
  "Decimal_of_number v = (case py_num v of None \<Rightarrow> Inl InvalidOperation | Some r \<Rightarrow> Inr r)"

definition example_feed :: feed where
  "example_feed =
     \<lparr>Decimal = Decimal_of_number,
      exchange_symbol_to_std_symbol =
        (\<lambda>s allow_missing. case s of JStr x \<Rightarrow> Inr x | _ \<Rightarrow> Inl UnsupportedSymbol),
      maybe_decimal = (\<lambda>v. Inr (py_num v)),
      timestamp_normalize = Decimal_of_number\<rparr>"

definition fresh :: hitbtc where
  "fresh = \<lparr>seq_no = Map.empty, l2_book = Map.empty, events = [], logged = []\<rparr>"

definition level_entry :: "int \<Rightarrow> int \<Rightarrow> json" where
  "level_entry price sz = JObj [(''price'', JInt price), (''size'', JInt sz)]"

text \<open>Scenario A: the snapshot \<^verbatim>\<open>{bid:{100:1}, ask:{101:2}}\<close> and the delta \<^verbatim>\<open>ask 101 -> 0\<close>.\<close>

definition snapshot_A :: json where
  "snapshot_A = JObj [(''symbol'', JStr ''ETHBTC''), (''bid'', JArr [level_entry 100 1]),
                      (''ask'', JArr [level_entry 101 2]), (''sequence'', JInt 5)]"

definition delta_A :: json where
  "delta_A = JObj [(''symbol'', JStr ''ETHBTC''), (''bid'', JArr []),
                   (''ask'', JArr [level_entry 101 0]), (''sequence'', JInt 6)]"

definition book_A :: book where
  "book_A = \<lparr>bid = [100 \<mapsto> 1], ask = [101 \<mapsto> 2]\<rparr>"

text \<open>The adapter after the snapshot of scenario A, at sequence number 5.\<close>

definition synced :: hitbtc where
  "synced = \<lparr>seq_no = [KStr ''ETHBTC'' \<mapsto> JInt 5], l2_book = [''ETHBTC'' \<mapsto> book_A],
             events = [], logged = []\<rparr>"

text \<open>An incremental frame that skips sequence number 6.\<close>

definition gap_params :: json where
  "gap_params = JObj [(''symbol'', JStr ''ETHBTC''), (''bid'', JArr []),
                      (''ask'', JArr [level_entry 101 0]), (''sequence'', JInt 7)]"

definition gap_frame :: json where
  "gap_frame = JObj [(''method'', JStr ''updateOrderbook''), (''params'', gap_params)]"

text \<open>The adapter at sequence number \<^verbatim>\<open>Decimal('1E+28')\<close>, and a snapshot frame that carries the
  same number again.\<close>

definition synced_rounded :: hitbtc where
  "synced_rounded = \<lparr>seq_no = [KStr ''ETHBTC'' \<mapsto> JDec (10 ^ 28)], l2_book = [''ETHBTC'' \<mapsto> book_A],
                     events = [], logged = []\<rparr>"

definition rounded_params :: json where
  "rounded_params = JObj [(''symbol'', JStr ''ETHBTC''), (''bid'', JArr [level_entry 100 1]),
                          (''ask'', JArr []), (''sequence'', JDec (10 ^ 28))]"

definition rounded_frame :: json where
  "rounded_frame = JObj [(''method'', JStr ''snapshotOrderbook''), (''params'', rounded_params)]"

text \<open>A snapshot with a level of size 0.\<close>

definition zero_snapshot :: json where
  "zero_snapshot = JObj [(''symbol'', JStr ''ETHBTC''), (''bid'', JArr [level_entry 100 0]),
                         (''ask'', JArr [])]"

text \<open>Frames of no known method or channel, and an error envelope.\<close>

definition heartbeat_frame :: json where
  "heartbeat_frame = JObj [(''method'', JStr ''heartbeat''), (''params'', JObj [(''symbol'', JStr ''ETHBTC'')])]"

definition heartbeat_sequenced :: "int \<Rightarrow> json" where
  "heartbeat_sequenced n =
     JObj [(''method'', JStr ''heartbeat''),
           (''params'', JObj [(''symbol'', JStr ''ETHBTC''), (''sequence'', JInt n)])]"

definition heartbeat_null :: json where
  "heartbeat_null = JObj [(''method'', JStr ''heartbeat''), (''params'', JNull)]"

definition candles_frame :: json where
  "candles_frame = JObj [(''channel'', JStr ''candles''), (''data'', JObj [])]"

definition error_frame :: json where
  "error_frame = JObj [(''error'', JObj [(''code'', JInt 2001)]), (''id'', JInt 1)]"

definition empty_result_frame :: json where
  "empty_result_frame = JObj [(''result'', JBool False), (''id'', JInt 1)]"

text \<open>A batch of two trades, stamped 10 and 20 by the exchange.\<close>

definition trade_entry :: "int \<Rightarrow> int \<Rightarrow> json" where
  "trade_entry n t =
     JObj [(''id'', JInt n), (''price'', JInt 100), (''quantity'', JInt 1), (''side'', JStr ''buy''),
           (''timestamp'', JInt t)]"

definition trades_frame :: json where
  "trades_frame = JObj [(''symbol'', JStr ''ETHBTC''), (''data'', JArr [trade_entry 1 10, trade_entry 2 20])]"

subsection \<open>Throttled reads\<close>

text \<open>One call of the throttled \<^verbatim>\<open>read\<close>: its weight and the three clock readings it may
  take.\<close>

record throttled_read =
  rd_weight :: int
  rd_now :: rat
  rd_wait :: rat
  rd_wake :: rat

definition throttle_read :: "throttled_read \<Rightarrow> throttled \<Rightarrow> rat option \<times> throttled" where
  "throttle_read r c = throttle (rd_weight r) (rd_now r) (rd_wait r) (rd_wake r) c"

text \<open>The state after a sequence of calls, and the total weight of the calls of a sequence
  that were let through without a suspension.\<close>

fun throttle_all :: "throttled_read list \<Rightarrow> throttled \<Rightarrow> throttled" where
  "throttle_all [] c = c"
| "throttle_all (r # rs) c = throttle_all rs (snd (throttle_read r c))"

fun accepted :: "throttled \<Rightarrow> throttled_read list \<Rightarrow> int" where
  "accepted c [] = 0"
| "accepted c (r # rs) =
     (case throttle_read r c of
        (None, c') \<Rightarrow> rd_weight r + accepted c' rs
      | (Some d, c') \<Rightarrow> accepted c' rs)"

text \<open>What is assumed of the clock and of \<^verbatim>\<open>asyncio.sleep\<close>: a suspended call wakes no
  earlier than the requested duration after it asked for it, and later calls read the clock
  no earlier than that.\<close>

fun honest_clock :: "throttled \<Rightarrow> throttled_read list \<Rightarrow> bool" where
  "honest_clock c [] = True"
| "honest_clock c (r # rs) =
     (case throttle_read r c of
        (None, c') \<Rightarrow> honest_clock c' rs
      | (Some d, c') \<Rightarrow> rd_wait r + d \<le> rd_wake r \<and> list_all (\<lambda>r'. rd_wake r \<le> rd_now r') rs
                          \<and> honest_clock c' rs)"

text \<open>A call made strictly inside minute \<open>k\<close>, that is after \<open>60 k\<close> and before
  \<open>60 k + 60\<close> seconds.\<close>

definition inside_minute :: "int \<Rightarrow> throttled_read \<Rightarrow> bool" where
  "inside_minute k r = (of_int (60 * k) < rd_now r \<and> rd_now r < of_int (60 * k + 60))"

text \<open>What every reachable state satisfies when weights are not negative: the used weight is
  not negative and the end of the window is a full minute.  \<open>charged k\<close> is the weight the
  state holds against minute \<open>k\<close>: the used weight, unless the window ended before the
  minute began.\<close>

definition aligned :: "throttled \<Rightarrow> bool" where
  "aligned c = (0 \<le> used_limit c \<and> (\<forall>n. next_reset c = Some n \<longrightarrow> 60 dvd n))"

definition charged :: "int \<Rightarrow> throttled \<Rightarrow> int" where
  "charged k c =
     (case next_reset c of
        None \<Rightarrow> used_limit c
      | Some n \<Rightarrow> if n = 0 \<or> 60 * k + 60 \<le> n then used_limit c else 0)"

subsection \<open>Construction of connections\<close>

text \<open>A constructor call, the id it gives (or the error it raises) with the counter it
  leaves, and a sequence of constructor calls from a given counter.\<close>

datatype conn_spec =
    NewHTTP string
  | NewThrottled string "int option" int
  | NewPoll "string + string list" string rat rat
  | NewWS string string

fun construct :: "conn_spec \<Rightarrow> nat \<Rightarrow> (error + string) \<times> nat" where
  "construct (NewHTTP conn_id) n =
     (case HTTPAsyncConn_init conn_id n of (c, n') \<Rightarrow> (Inr (ident c), n'))"
| "construct (NewThrottled conn_id limit interval) n =
     (case ThrottledHTTPAsyncConn_init conn_id limit interval n of (c, n') \<Rightarrow> (Inr (ident c), n'))"
| "construct (NewPoll address conn_id delay' sleep') n =
     (case HTTPPoll_init address conn_id delay' sleep' n of (c, n') \<Rightarrow> (Inr (ident c), n'))"
| "construct (NewWS address conn_id) n =
     (case WSAsyncConn_init address conn_id n of
        (Inl e, n') \<Rightarrow> (Inl e, n')
      | (Inr c, n') \<Rightarrow> (Inr (ident c), n'))"

fun construct_all :: "conn_spec list \<Rightarrow> nat \<Rightarrow> (error + string) list" where
  "construct_all [] n = []"
| "construct_all (spec # specs) n =
     (case construct spec n of (res, n') \<Rightarrow> res # construct_all specs n')"

text \<open>The calls that do not raise, and the id a call gives when the counter stands at \<open>k\<close>:
  the base, the tag of the transport kind and the counter.  The polling constructor adds
  \<^verbatim>\<open>.http.\<close> and the counter itself and then calls the constructor of the HTTP connection,
  which adds them again.\<close>

fun accepted_spec :: "conn_spec \<Rightarrow> bool" where
  "accepted_spec (NewWS address conn_id) = prefix ''wss://'' address"
| "accepted_spec (NewHTTP conn_id) = True"
| "accepted_spec (NewThrottled conn_id limit interval) = True"
| "accepted_spec (NewPoll address conn_id delay' sleep') = True"

fun expected_id :: "conn_spec \<Rightarrow> nat \<Rightarrow> string" where
  "expected_id (NewHTTP conn_id) k = conn_id @ ''.http.'' @ str_nat k"
| "expected_id (NewThrottled conn_id limit interval) k = conn_id @ ''.http.'' @ str_nat k"
| "expected_id (NewWS address conn_id) k = conn_id @ ''.ws.'' @ str_nat k"
| "expected_id (NewPoll address conn_id delay' sleep') k =
     conn_id @ ''.http.'' @ str_nat k @ ''.http.'' @ str_nat k"

text \<open>The numeric suffix of an id is what follows its last dot; \<open>id_number\<close> reads it as a
  decimal number, a digit being worth its position in the string \<open>digit_char\<close> indexes.\<close>

definition numeric_suffix :: "string \<Rightarrow> string" where
  "numeric_suffix s = rev (takeWhile (\<lambda>c. c \<noteq> CHR ''.'') (rev s))"

definition digit_val :: "char \<Rightarrow> nat" where
  "digit_val c = length (takeWhile (\<lambda>d. d \<noteq> c) ''0123456789'')"

definition nat_of_str :: "string \<Rightarrow> nat" where
  "nat_of_str s = foldl (\<lambda>a c. 10 * a + digit_val c) 0 s"

definition id_number :: "string \<Rightarrow> nat" where
  "id_number s = nat_of_str (numeric_suffix s)"

subsection \<open>Examples of connections\<close>

text \<open>Scenario B: a throttled connection of limit 10, and calls that read the clock once.\<close>

definition throttled_10 :: throttled where
  "throttled_10 = fst (ThrottledHTTPAsyncConn_init ''rest'' (Some 10) 60 0)"

definition read_at :: "int \<Rightarrow> rat \<Rightarrow> throttled_read" where
  "read_at w t = \<lparr>rd_weight = w, rd_now = t, rd_wait = t, rd_wake = t\<rparr>"

definition not_found :: response where
  "not_found = \<lparr>status = 404, body = ''Not Found'', headers = []\<rparr>"

definition ok_response :: response where
  "ok_response = \<lparr>status = 200, body = ''[]'', headers = []\<rparr>"

text \<open>Connections as constructed, hence closed; a polling connection with its session
  open; connections in use, with 3 frames sent and 5 received.\<close>

definition http_0 :: async_connection where
  "http_0 = fst (HTTPAsyncConn_init ''rest'' 0)"

definition poll_0 :: http_poll where
  "poll_0 = fst (HTTPPoll_init (Inl ''https://api/ticker'') ''poll'' 60 1 0)"

definition ws_0 :: ws_connection where
  "ws_0 = \<lparr>ident = ''feed.ws.0'', received = 0, sent = 0, last_message = None, conn = None,
           ws_address = ''wss://api/ws''\<rparr>"

definition poll_open :: http_poll where
  "poll_open = \<lparr>ident = ''poll.http.0.http.0'', received = 0, sent = 0, last_message = None,
                conn = Some \<lparr>closed = False\<rparr>, addresses = [''https://api/ticker''],
                sleep = 1, delay = 60\<rparr>"

definition ws_busy :: ws_connection where
  "ws_busy = \<lparr>ident = ''feed.ws.0'', received = 5, sent = 3, last_message = Some 7,
              conn = Some \<lparr>closed = False\<rparr>, ws_address = ''wss://api/ws''\<rparr>"

definition http_busy :: async_connection where
  "http_busy = \<lparr>ident = ''rest.http.0'', received = 5, sent = 3, last_message = Some 7,
                conn = Some \<lparr>closed = False\<rparr>\<rparr>"

definition mixed_specs :: "conn_spec list" where
  "mixed_specs = [NewHTTP ''feed'', NewWS ''wss://api/ws'' ''feed'', NewHTTP ''feed'',
                  NewPoll (Inl ''https://api/ticker'') ''poll'' 60 1]"

text \<open>The effects of a suspension.\<close>

definition quiet :: "effect \<Rightarrow> bool" where
  "quiet e = (e = LOG_info ''Throttling kicked in'' \<or> (\<exists>d. e = Sleep d))"

section \<open>Properties of the HitBTC adapter\<close>

subsection \<open>Auxiliary facts\<close>

lemma ebind_Inr_iff: "ebind m f = Inr y \<longleftrightarrow> (\<exists>v. m = Inr v \<and> f v = Inr y)"
  by (cases m) (simp_all add: ebind_def)

lemma ebind_simps [simp]: "ebind (Inl e) f = Inl e" "ebind (Inr v) f = f v"
  by (simp_all add: ebind_def)

lemma getitem_contains: "py_getitem v k = Inr x \<Longrightarrow> py_contains k v = Inr True"
proof (cases v)
  case (JObj kvs)
  assume "py_getitem v k = Inr x"
  with JObj have "map_of kvs k = Some x" by (simp split: option.splits)
  then have "(k, x) \<in> set kvs" by (rule map_of_SomeD)
  then have "k \<in> fst ` set kvs" by force
  with JObj show ?thesis by simp
qed simp_all

lemma getitem_contains_other:
  "py_getitem v k = Inr x \<Longrightarrow> py_contains k' v = Inr False \<or> py_contains k' v = Inr True"
  by (cases v) simp_all

lemma delta_extend_Nil [simp]: "delta_extend sd [] d = d"
  by (cases sd) simp_all

lemma delta_extend_Cons: "delta_extend sd es (delta_append sd e d) = delta_extend sd (e # es) d"
  by (cases sd) simp_all

lemma get_set_side [simp]:
  "get_side sd (set_side sd l b) = l"
  "set_side sd l (set_side sd l' b) = set_side sd l b"
  "set_side sd (get_side sd b) b = b"
  by (cases sd; simp)+

lemma book_literal: "(b::book)\<lparr>bid := x, ask := y\<rparr> = \<lparr>bid = x, ask = y\<rparr>"
  by (cases b) simp

subsection \<open>The incremental handler applies the frame's levels\<close>

lemma book_entry_level:
  assumes "entry_level env entry = Inr (p, s)" and "lb pair = Some b"
  shows "book_entry env pair sd entry lb d =
           Inr (lb(pair \<mapsto> set_side sd (apply_level (p, s) (get_side sd b)) b),
                delta_append sd (p, s) d)"
proof -
  have "lb(pair \<mapsto> b) = lb" using assms(2) by (simp add: fun_upd_idem)
  moreover have "p \<notin> dom (get_side sd b) \<Longrightarrow> (get_side sd b)(p := None) = get_side sd b"
    by (simp add: domIff)
  ultimately show ?thesis
    using assms by (auto simp add: book_entry_def apply_level_def)
qed

lemma book_entries_levels:
  assumes "entry_levels env entries = Inr es" and "lb pair = Some b"
  shows "book_entries env pair sd entries lb d =
           (Inr (delta_extend sd es d),
            lb(pair \<mapsto> set_side sd (fold apply_level es (get_side sd b)) b))"
  using assms
proof (induction entries arbitrary: es lb b d)
  case Nil
  then show ?case by (simp add: fun_upd_idem)
next
  case (Cons entry rest)
  from Cons.prems(1) obtain e es' where e: "entry_level env entry = Inr e"
    and es': "entry_levels env rest = Inr es'" and es: "es = e # es'"
    by (auto simp add: ebind_Inr_iff)
  obtain p s where ps: "e = (p, s)" by (cases e)
  define b1 where "b1 = set_side sd (apply_level (p, s) (get_side sd b)) b"
  define l1 where "l1 = lb(pair \<mapsto> b1)"
  have step: "book_entry env pair sd entry lb d = Inr (l1, delta_append sd (p, s) d)"
    using e ps Cons.prems(2) by (simp add: book_entry_level l1_def b1_def)
  have "l1 pair = Some b1" by (simp add: l1_def)
  with es' have "book_entries env pair sd rest l1 (delta_append sd (p, s) d) =
      (Inr (delta_extend sd es' (delta_append sd (p, s) d)),
       l1(pair \<mapsto> set_side sd (fold apply_level es' (get_side sd b1)) b1))"
    by (rule Cons.IH)
  moreover have "l1(pair \<mapsto> set_side sd (fold apply_level es' (get_side sd b1)) b1) =
      lb(pair \<mapsto> set_side sd (fold apply_level es (get_side sd b)) b)"
    by (simp add: l1_def b1_def es ps)
  ultimately show ?case using step es ps by (simp add: delta_extend_Cons) (rule ext, simp)
qed

lemma book_side_levels:
  assumes "side_levels env msg sd = Inr es" and "lb pair = Some b"
  shows "book_side env pair msg sd lb d =
           (Inr (delta_extend sd es d),
            lb(pair \<mapsto> set_side sd (fold apply_level es (get_side sd b)) b))"
proof -
  from assms(1) obtain entries where "ebind (py_getitem msg (side_key sd)) py_iter = Inr entries"
    and "entry_levels env entries = Inr es"
    by (auto simp add: side_levels_def ebind_Inr_iff)
  then show ?thesis using assms(2) by (simp add: book_side_def book_entries_levels)
qed

lemma book_frame:
  assumes sym: "ebind (py_getitem msg ''symbol'') (\<lambda>s. exchange_symbol_to_std_symbol env s True) = Inr pair"
    and bids: "side_levels env msg BID = Inr bs"
    and asks: "side_levels env msg ASK = Inr as"
    and book: "l2_book st pair = Some b"
  shows "HitBTC_book env msg timestamp st =
     (Returned,
      st\<lparr>l2_book := (l2_book st)(pair \<mapsto> \<lparr>bid = fold apply_level bs (bid b), ask = fold apply_level as (ask b)\<rparr>),
         events := events st @
           [BookEv \<lparr>bk_book = \<lparr>bid = fold apply_level bs (bid b), ask = fold apply_level as (ask b)\<rparr>,
              bk_symbol = pair, bk_forced = False,
              bk_delta = Some \<lparr>delta_bid = bs, delta_ask = as\<rparr>,
              bk_timestamp = timestamp, bk_receipt_timestamp = timestamp\<rparr>]\<rparr>)"
proof -
  let ?b1 = "set_side BID (fold apply_level bs (get_side BID b)) b"
  let ?l1 = "(l2_book st)(pair \<mapsto> ?b1)"
  have 1: "book_side env pair msg BID (l2_book st) empty_delta = (Inr (delta_extend BID bs empty_delta), ?l1)"
    using bids book by (rule book_side_levels)
  have "?l1 pair = Some ?b1" by simp
  with asks
  have 2: "book_side env pair msg ASK ?l1 (delta_extend BID bs empty_delta) =
    (Inr (delta_extend ASK as (delta_extend BID bs empty_delta)),
     ?l1(pair \<mapsto> set_side ASK (fold apply_level as (get_side ASK ?b1)) ?b1))"
    by (rule book_side_levels)
  show ?thesis
    unfolding HitBTC_book_def sym using 1 2
    by (simp add: book_callback_def empty_delta_def book_literal)
qed

text \<open>
  Claim C3.  In an incremental book frame, an entry of size 0 deletes its price level from
  the side of the replica it is listed under when the level exists and leaves the replica as
  it is when the level is absent; an entry of another size sets the level to that size; in
  every case the entry, with its size, is appended to the delta of its side.  Hence a frame
  whose symbol is known to the replica and whose entries all decode returns, leaves each
  side as the fold of its entries over the side, and emits one book event that carries the
  new book and, as delta, the decoded entries of each side in the order of the frame,
  size-0 entries included.
\<close>

theorem book_delta_applied:
  assumes sym: "ebind (py_getitem msg ''symbol'') (\<lambda>s. exchange_symbol_to_std_symbol env s True) = Inr pair"
    and bids: "side_levels env msg BID = Inr bs"
    and asks: "side_levels env msg ASK = Inr as"
    and book: "l2_book st pair = Some b"
  shows "(\<forall>sd entry p s lb d b'. entry_level env entry = Inr (p, s) \<and> lb pair = Some b' \<longrightarrow>
            (s = 0 \<and> p \<in> dom (get_side sd b') \<longrightarrow>
               book_entry env pair sd entry lb d =
                 Inr (lb(pair \<mapsto> set_side sd ((get_side sd b')(p := None)) b'), delta_append sd (p, 0) d))
          \<and> (s = 0 \<and> p \<notin> dom (get_side sd b') \<longrightarrow>
               book_entry env pair sd entry lb d = Inr (lb, delta_append sd (p, 0) d))
          \<and> (s \<noteq> 0 \<longrightarrow>
               book_entry env pair sd entry lb d =
                 Inr (lb(pair \<mapsto> set_side sd ((get_side sd b')(p \<mapsto> s)) b'), delta_append sd (p, s) d)))
       \<and> HitBTC_book env msg timestamp st =
           (Returned,
            st\<lparr>l2_book := (l2_book st)(pair \<mapsto>
                   \<lparr>bid = fold apply_level bs (bid b), ask = fold apply_level as (ask b)\<rparr>),
               events := events st @
                 [BookEv \<lparr>bk_book = \<lparr>bid = fold apply_level bs (bid b), ask = fold apply_level as (ask b)\<rparr>,
                    bk_symbol = pair, bk_forced = False,
                    bk_delta = Some \<lparr>delta_bid = bs, delta_ask = as\<rparr>,
                    bk_timestamp = timestamp, bk_receipt_timestamp = timestamp\<rparr>]\<rparr>)"
proof (rule conjI)
  show "\<forall>sd entry p s lb d b'. entry_level env entry = Inr (p, s) \<and> lb pair = Some b' \<longrightarrow>
            (s = 0 \<and> p \<in> dom (get_side sd b') \<longrightarrow>
               book_entry env pair sd entry lb d =
                 Inr (lb(pair \<mapsto> set_side sd ((get_side sd b')(p := None)) b'), delta_append sd (p, 0) d))
          \<and> (s = 0 \<and> p \<notin> dom (get_side sd b') \<longrightarrow>
               book_entry env pair sd entry lb d = Inr (lb, delta_append sd (p, 0) d))
          \<and> (s \<noteq> 0 \<longrightarrow>
               book_entry env pair sd entry lb d =
                 Inr (lb(pair \<mapsto> set_side sd ((get_side sd b')(p \<mapsto> s)) b'), delta_append sd (p, s) d))"
    by (simp add: book_entry_def)
next
  show "HitBTC_book env msg timestamp st =
           (Returned,
            st\<lparr>l2_book := (l2_book st)(pair \<mapsto>
                   \<lparr>bid = fold apply_level bs (bid b), ask = fold apply_level as (ask b)\<rparr>),
               events := events st @
                 [BookEv \<lparr>bk_book = \<lparr>bid = fold apply_level bs (bid b), ask = fold apply_level as (ask b)\<rparr>,
                    bk_symbol = pair, bk_forced = False,
                    bk_delta = Some \<lparr>delta_bid = bs, delta_ask = as\<rparr>,
                    bk_timestamp = timestamp, bk_receipt_timestamp = timestamp\<rparr>]\<rparr>)"
    using sym bids asks book by (rule book_frame)
qed

lemma snapshot_A_result:
  "HitBTC_snapshot example_feed snapshot_A 1 fresh =
     (Returned,
      fresh\<lparr>l2_book := [''ETHBTC'' \<mapsto> book_A],
            events := [BookEv \<lparr>bk_book = book_A, bk_symbol = ''ETHBTC'', bk_forced = True,
                              bk_delta = None, bk_timestamp = 1, bk_receipt_timestamp = 1\<rparr>]\<rparr>)"
  by (simp add: HitBTC_snapshot_def snapshot_side_def snapshot_entry_def entry_level_def
      example_feed_def Decimal_of_number_def snapshot_A_def level_entry_def fresh_def
      book_callback_def book_A_def)

text \<open>Scenario A: the snapshot \<^verbatim>\<open>{bid:{100:1}, ask:{101:2}}\<close> followed by the delta
  \<^verbatim>\<open>ask 101 -> 0\<close> gives the book \<^verbatim>\<open>{bid:{100:1}, ask:{}}\<close> and the emitted delta
  \<^verbatim>\<open>{bid:[], ask:[(101,0)]}\<close>.\<close>

theorem book_delta_applied_witness:
  "fst (HitBTC_snapshot example_feed snapshot_A 1 fresh) = Returned
   \<and> l2_book (snd (HitBTC_snapshot example_feed snapshot_A 1 fresh)) ''ETHBTC'' =
       Some \<lparr>bid = [100 \<mapsto> 1], ask = [101 \<mapsto> 2]\<rparr>
   \<and> fst (HitBTC_book example_feed delta_A 2 (snd (HitBTC_snapshot example_feed snapshot_A 1 fresh))) = Returned
   \<and> l2_book (snd (HitBTC_book example_feed delta_A 2 (snd (HitBTC_snapshot example_feed snapshot_A 1 fresh))))
       ''ETHBTC'' = Some \<lparr>bid = [100 \<mapsto> 1], ask = Map.empty\<rparr>
   \<and> last (events (snd (HitBTC_book example_feed delta_A 2 (snd (HitBTC_snapshot example_feed snapshot_A 1 fresh))))) =
       BookEv \<lparr>bk_book = \<lparr>bid = [100 \<mapsto> 1], ask = Map.empty\<rparr>, bk_symbol = ''ETHBTC'',
               bk_forced = False, bk_delta = Some \<lparr>delta_bid = [], delta_ask = [(101, 0)]\<rparr>,
               bk_timestamp = 2, bk_receipt_timestamp = 2\<rparr>"
proof -
  define st1 where "st1 = snd (HitBTC_snapshot example_feed snapshot_A 1 fresh)"
  have st1: "st1 = fresh\<lparr>l2_book := [''ETHBTC'' \<mapsto> book_A],
            events := [BookEv \<lparr>bk_book = book_A, bk_symbol = ''ETHBTC'', bk_forced = True,
                              bk_delta = None, bk_timestamp = 1, bk_receipt_timestamp = 1\<rparr>]\<rparr>"
    by (simp add: st1_def snapshot_A_result)
  have sym: "ebind (py_getitem delta_A ''symbol'')
               (\<lambda>s. exchange_symbol_to_std_symbol example_feed s True) = Inr ''ETHBTC''"
    by (simp add: delta_A_def example_feed_def)
  have bids: "side_levels example_feed delta_A BID = Inr []"
    by (simp add: side_levels_def delta_A_def)
  have asks: "side_levels example_feed delta_A ASK = Inr [(101, 0)]"
    by (simp add: side_levels_def delta_A_def level_entry_def entry_level_def example_feed_def
        Decimal_of_number_def)
  have book: "l2_book st1 ''ETHBTC'' = Some book_A"
    by (simp add: st1)
  have "(ask book_A)(101 := None) = Map.empty"
    by (simp add: book_A_def)
  with book_delta_applied [OF sym bids asks book, of 2] show ?thesis
    unfolding st1_def [symmetric]
    by (simp add: snapshot_A_result apply_level_def book_A_def st1)
qed

subsection \<open>Levels of size 0\<close>

lemma level_free_set_side:
  assumes "level_free (bid b)" "level_free (ask b)" "level_free l"
  shows "level_free (bid (set_side sd l b)) \<and> level_free (ask (set_side sd l b))"
  using assms by (cases sd) simp_all

lemma level_free_get_side:
  "level_free (bid b) \<Longrightarrow> level_free (ask b) \<Longrightarrow> level_free (get_side sd b)"
  by (cases sd) simp_all

lemma level_free_delete: "level_free m \<Longrightarrow> level_free (m(p := None))"
  by (simp add: level_free_def)

lemma level_free_upsert: "level_free m \<Longrightarrow> s \<noteq> 0 \<Longrightarrow> level_free (m(p \<mapsto> s))"
  by (simp add: level_free_def)

lemma no_zero_levels_upd:
  "no_zero_levels lb \<Longrightarrow> level_free (bid b) \<Longrightarrow> level_free (ask b) \<Longrightarrow>
   no_zero_levels (lb(pair \<mapsto> b))"
  by (simp add: no_zero_levels_def)

lemma no_zero_levels_lookup:
  "no_zero_levels lb \<Longrightarrow> lb pair = Some b \<Longrightarrow> level_free (bid b) \<and> level_free (ask b)"
  by (simp add: no_zero_levels_def)

lemma book_entry_no_zero:
  assumes inv: "no_zero_levels lb" and step: "book_entry env pair sd entry lb d = Inr (lb', d')"
  shows "no_zero_levels lb'"
proof -
  from step obtain p s b where lv: "entry_level env entry = Inr (p, s)" and b: "lb pair = Some b"
    by (auto simp add: book_entry_def ebind_Inr_iff split: option.splits)
  from inv b have fr: "level_free (bid b)" "level_free (ask b)"
    by (simp_all add: no_zero_levels_lookup)
  then have "level_free (apply_level (p, s) (get_side sd b))"
    by (simp add: apply_level_def level_free_get_side level_free_delete level_free_upsert)
  with fr have "no_zero_levels (lb(pair \<mapsto> set_side sd (apply_level (p, s) (get_side sd b)) b))"
    using inv by (simp add: no_zero_levels_upd level_free_set_side)
  moreover have "lb' = lb(pair \<mapsto> set_side sd (apply_level (p, s) (get_side sd b)) b)"
    using step lv b by (simp add: book_entry_level)
  ultimately show ?thesis by simp
qed

lemma book_entries_no_zero:
  "no_zero_levels lb \<Longrightarrow> no_zero_levels (snd (book_entries env pair sd entries lb d))"
proof (induction entries arbitrary: lb d)
  case Nil
  then show ?case by simp
next
  case (Cons entry rest)
  show ?case
  proof (cases "book_entry env pair sd entry lb d")
    case (Inl e)
    then show ?thesis using Cons.prems by simp
  next
    case (Inr r)
    obtain lb' d' where r: "r = (lb', d')" by (cases r)
    with Inr Cons.prems have "no_zero_levels lb'" by (auto dest: book_entry_no_zero)
    then have "no_zero_levels (snd (book_entries env pair sd rest lb' d'))" by (rule Cons.IH)
    then show ?thesis using Inr r by simp
  qed
qed

lemma book_side_no_zero:
  "no_zero_levels lb \<Longrightarrow> no_zero_levels (snd (book_side env pair msg sd lb d))"
  by (simp add: book_side_def book_entries_no_zero split: sum.splits)

lemma HitBTC_book_no_zero:
  assumes "no_zero_levels (l2_book st)"
  shows "no_zero_levels (l2_book (snd (HitBTC_book env msg timestamp st)))"
proof (cases "ebind (py_getitem msg ''symbol'') (\<lambda>s. exchange_symbol_to_std_symbol env s True)")
  case (Inl e)
  then show ?thesis using assms by (simp add: HitBTC_book_def)
next
  case (Inr pair)
  obtain r1 l1 where 1: "book_side env pair msg BID (l2_book st) empty_delta = (r1, l1)"
    by (cases "book_side env pair msg BID (l2_book st) empty_delta")
  have i1: "no_zero_levels l1"
    using book_side_no_zero [OF assms, of env pair msg BID empty_delta] 1 by simp
  show ?thesis
  proof (cases r1)
    case (Inl e)
    then show ?thesis using Inr 1 i1 by (simp add: HitBTC_book_def)
  next
    case d: (Inr d)
    obtain r2 l2 where 2: "book_side env pair msg ASK l1 d = (r2, l2)"
      by (cases "book_side env pair msg ASK l1 d")
    have i2: "no_zero_levels l2"
      using book_side_no_zero [OF i1, of env pair msg ASK d] 2 by simp
    show ?thesis using Inr 1 d 2 i2
      by (simp add: HitBTC_book_def book_callback_def split: sum.splits option.splits)
  qed
qed

lemma snapshot_entry_no_zero:
  assumes "level_free (bid b)" "level_free (ask b)" and "nonzero_size env entry"
    and "snapshot_entry env sd entry b = Inr b'"
  shows "level_free (bid b') \<and> level_free (ask b')"
proof -
  from assms(4) obtain p s where lv: "entry_level env entry = Inr (p, s)"
    and b': "b' = set_side sd ((get_side sd b)(p \<mapsto> s)) b"
    by (auto simp add: snapshot_entry_def ebind_Inr_iff)
  from lv assms(3) have "s \<noteq> 0" by (simp add: nonzero_size_def)
  with assms(1,2) show ?thesis unfolding b'
    by (intro level_free_set_side level_free_upsert level_free_get_side)
qed

lemma snapshot_entries_no_zero:
  assumes "level_free (bid b)" "level_free (ask b)" and "list_all (nonzero_size env) entries"
  shows "level_free (bid (snd (snapshot_entries env sd entries b))) \<and>
         level_free (ask (snd (snapshot_entries env sd entries b)))"
  using assms
proof (induction entries arbitrary: b)
  case Nil
  then show ?case by simp
next
  case (Cons entry rest)
  show ?case
  proof (cases "snapshot_entry env sd entry b")
    case (Inl e)
    then show ?thesis using Cons.prems by simp
  next
    case (Inr b')
    with Cons.prems have "level_free (bid b') \<and> level_free (ask b')"
      by (auto dest: snapshot_entry_no_zero)
    with Cons.prems Cons.IH [of b'] show ?thesis using Inr by simp
  qed
qed

lemma snapshot_side_no_zero:
  assumes "level_free (bid b)" "level_free (ask b)"
    and "list_all (nonzero_size env) (side_entries msg sd)"
  shows "level_free (bid (snd (snapshot_side env msg sd b))) \<and>
         level_free (ask (snd (snapshot_side env msg sd b)))"
  using assms
  by (auto simp add: snapshot_side_def side_entries_def snapshot_entries_no_zero split: sum.splits)

lemma HitBTC_snapshot_no_zero:
  assumes inv: "no_zero_levels (l2_book st)" and nz: "nonzero_sizes env msg"
  shows "no_zero_levels (l2_book (snd (HitBTC_snapshot env msg timestamp st)))"
proof (cases "ebind (py_getitem msg ''symbol'') (\<lambda>s. exchange_symbol_to_std_symbol env s False)")
  case (Inl e)
  then show ?thesis using inv by (simp add: HitBTC_snapshot_def)
next
  case (Inr pair)
  let ?b0 = "\<lparr>bid = Map.empty, ask = Map.empty\<rparr>"
  obtain r1 b1 where 1: "snapshot_side env msg BID ?b0 = (r1, b1)"
    by (cases "snapshot_side env msg BID ?b0")
  obtain r2 b2 where 2: "snapshot_side env msg ASK b1 = (r2, b2)"
    by (cases "snapshot_side env msg ASK b1")
  from nz have nzb: "list_all (nonzero_size env) (side_entries msg BID)"
    and nza: "list_all (nonzero_size env) (side_entries msg ASK)"
    by (simp_all add: nonzero_sizes_def)
  have "level_free (bid ?b0)" "level_free (ask ?b0)" by (simp_all add: level_free_def)
  from snapshot_side_no_zero [OF this nzb] 1
  have f1: "level_free (bid b1)" "level_free (ask b1)" by simp_all
  from snapshot_side_no_zero [OF this nza] 2
  have f2: "level_free (bid b2)" "level_free (ask b2)" by simp_all
  show ?thesis using Inr 1 2 f1 f2 inv
    by (simp add: HitBTC_snapshot_def book_callback_def no_zero_levels_upd split: option.splits)
qed

lemma apply_op_no_zero:
  "no_zero_levels (l2_book st) \<Longrightarrow> zero_free_snapshot env op \<Longrightarrow>
   no_zero_levels (l2_book (apply_op env op st))"
  by (cases op) (simp_all add: HitBTC_snapshot_no_zero HitBTC_book_no_zero)

text \<open>
  Claim C4, as the code has it.  The incremental handler keeps the replica free of levels
  of size 0 whatever the frame holds, also when it raises half-way.  The snapshot handler
  installs the sizes of the frame as they are, so it keeps the replica free of such levels
  when no entry of the snapshot has size 0.  Hence after any sequence of applications of the
  two handlers in which the snapshots have no entry of size 0, no side of any symbol holds a
  level of size 0.
\<close>

theorem no_zero_levels_preserved:
  assumes "no_zero_levels (l2_book st)" and "list_all (zero_free_snapshot env) ops"
  shows "no_zero_levels (l2_book (snd (HitBTC_book env msg timestamp st)))
       \<and> (nonzero_sizes env msg \<longrightarrow> no_zero_levels (l2_book (snd (HitBTC_snapshot env msg timestamp st))))
       \<and> no_zero_levels (l2_book (fold (apply_op env) ops st))"
proof (intro conjI impI)
  show "no_zero_levels (l2_book (snd (HitBTC_book env msg timestamp st)))"
    using assms(1) by (rule HitBTC_book_no_zero)
  show "no_zero_levels (l2_book (snd (HitBTC_snapshot env msg timestamp st)))" if "nonzero_sizes env msg"
    using assms(1) that by (rule HitBTC_snapshot_no_zero)
  show "no_zero_levels (l2_book (fold (apply_op env) ops st))"
    using assms by (induction ops arbitrary: st) (simp_all add: apply_op_no_zero)
qed

lemma fresh_no_zero: "no_zero_levels (l2_book fresh)"
  by (simp add: no_zero_levels_def fresh_def)

lemma snapshot_A_nonzero: "nonzero_sizes example_feed snapshot_A"
  by (simp add: nonzero_sizes_def side_entries_def nonzero_size_def entry_level_def
      snapshot_A_def level_entry_def example_feed_def Decimal_of_number_def)

theorem no_zero_levels_preserved_witness:
  "no_zero_levels (l2_book fresh)
   \<and> list_all (zero_free_snapshot example_feed) [SnapshotOp snapshot_A 1, BookOp delta_A 2]
   \<and> no_zero_levels (l2_book (snd (HitBTC_book example_feed delta_A 2 fresh)))
   \<and> no_zero_levels (l2_book (snd (HitBTC_snapshot example_feed snapshot_A 1 fresh)))
   \<and> no_zero_levels
       (l2_book (fold (apply_op example_feed) [SnapshotOp snapshot_A 1, BookOp delta_A 2] fresh))"
proof -
  have ops: "list_all (zero_free_snapshot example_feed) [SnapshotOp snapshot_A 1, BookOp delta_A 2]"
    by (simp add: snapshot_A_nonzero)
  from no_zero_levels_preserved [OF fresh_no_zero ops, of snapshot_A 1]
    no_zero_levels_preserved [OF fresh_no_zero ops, of delta_A 2]
  show ?thesis using fresh_no_zero ops snapshot_A_nonzero by simp
qed

text \<open>The claim as stated fails: a snapshot with an entry of size 0 returns normally and
  leaves a level of size 0 in the replica.\<close>

theorem snapshot_keeps_zero_level_counterexample:
  "no_zero_levels (l2_book fresh)
   \<and> fst (HitBTC_snapshot example_feed zero_snapshot 1 fresh) = Returned
   \<and> (\<exists>b. l2_book (snd (HitBTC_snapshot example_feed zero_snapshot 1 fresh)) ''ETHBTC'' = Some b
          \<and> bid b 100 = Some 0)
   \<and> \<not> no_zero_levels (l2_book (snd (HitBTC_snapshot example_feed zero_snapshot 1 fresh)))"
proof -
  have r: "HitBTC_snapshot example_feed zero_snapshot 1 fresh =
     (Returned,
      fresh\<lparr>l2_book := [''ETHBTC'' \<mapsto> \<lparr>bid = [100 \<mapsto> 0], ask = Map.empty\<rparr>],
            events := [BookEv \<lparr>bk_book = \<lparr>bid = [100 \<mapsto> 0], ask = Map.empty\<rparr>,
                              bk_symbol = ''ETHBTC'', bk_forced = True, bk_delta = None,
                              bk_timestamp = 1, bk_receipt_timestamp = 1\<rparr>]\<rparr>)"
    by (simp add: HitBTC_snapshot_def snapshot_side_def snapshot_entry_def entry_level_def
        example_feed_def Decimal_of_number_def zero_snapshot_def level_entry_def fresh_def
        book_callback_def)
  have "\<not> no_zero_levels [''ETHBTC'' \<mapsto> \<lparr>bid = [100 \<mapsto> 0], ask = Map.empty\<rparr>]"
    by (auto simp add: no_zero_levels_def level_free_def)
  with r fresh_no_zero show ?thesis by simp
qed

subsection \<open>The sequence check\<close>

lemma rounded_successor: "py_add1 (JDec (10 ^ 28)) = Inr (10 ^ 28)"
proof -
  have "decimal_round (10 ^ 28 + 1) = Inr (10 ^ 28)" by code_simp
  then show ?thesis by simp
qed

text \<open>
  Claim C1, as the code has it.  When a frame carries a sequence number under \<^verbatim>\<open>params\<close>,
  the last sequence number confirmed for the frame's symbol is \<open>s\<close>, and the frame's own
  differs from the sum \<^verbatim>\<open>s + 1\<close> as Python computes it, the handler raises
  \<^verbatim>\<open>MissingSequenceNumber\<close>.  It leaves the replica, the emitted events and the recorded
  sequence numbers as they were; its only effect is the warning in the log.  The result does
  not depend on the feed or on the receipt timestamp: no handler is reached.  The sum is
  exact when \<open>s\<close> is an \<^verbatim>\<open>int\<close>; when \<open>s\<close> is a \<^verbatim>\<open>Decimal\<close> it is the exact sum rounded to
  28 significant digits.
\<close>

theorem sequence_gap_raises:
  assumes params: "py_getitem msg ''params'' = Inr params"
    and sq: "py_getitem params ''sequence'' = Inr sq"
    and symbol: "py_getitem params ''symbol'' = Inr symbol"
    and key: "hashable symbol = Inr k"
    and prev: "seq_no st k = Some prev"
    and succ: "py_add1 prev = Inr x"
    and gap: "py_num sq \<noteq> Some x"
  shows "message_handler env msg timestamp st =
           (Raised MissingSequenceNumber, st\<lparr>logged := logged st @ [LOG_missing_sequence symbol]\<rparr>)
       \<and> l2_book (snd (message_handler env msg timestamp st)) = l2_book st
       \<and> events (snd (message_handler env msg timestamp st)) = events st
       \<and> seq_no (snd (message_handler env msg timestamp st)) = seq_no st
       \<and> (\<forall>i. prev = JInt i \<longrightarrow> x = of_int i + 1)
       \<and> (\<forall>r. prev = JDec r \<longrightarrow> decimal_round (r + 1) = Inr x)"
proof -
  have "carries_sequence msg = Inr True"
    using params sq by (simp add: carries_sequence_def getitem_contains)
  moreover have "py_add1_ne prev sq = Inr True"
    using succ gap by (simp add: py_add1_ne_def)
  ultimately have "sequence_check msg st =
      (Raised MissingSequenceNumber, st\<lparr>logged := logged st @ [LOG_missing_sequence symbol]\<rparr>)"
    using params sq symbol key prev by (simp add: sequence_check_def)
  moreover have "\<forall>i. prev = JInt i \<longrightarrow> x = of_int i + 1"
    using succ by auto
  moreover have "\<forall>r. prev = JDec r \<longrightarrow> decimal_round (r + 1) = Inr x"
    using succ by auto
  ultimately show ?thesis by (simp add: message_handler_def)
qed

theorem sequence_gap_raises_witness:
  "seq_no synced (KStr ''ETHBTC'') = Some (JInt 5)
   \<and> py_add1 (JInt 5) = Inr 6
   \<and> py_num (JInt 7) \<noteq> Some 6
   \<and> message_handler example_feed gap_frame 3 synced =
       (Raised MissingSequenceNumber, synced\<lparr>logged := [LOG_missing_sequence (JStr ''ETHBTC'')]\<rparr>)
   \<and> l2_book (snd (message_handler example_feed gap_frame 3 synced)) = [''ETHBTC'' \<mapsto> book_A]
   \<and> events (snd (message_handler example_feed gap_frame 3 synced)) = []"
proof -
  have 1: "py_getitem gap_frame ''params'' = Inr gap_params"
    by (simp add: gap_frame_def)
  have 2: "py_getitem gap_params ''sequence'' = Inr (JInt 7)"
    by (simp add: gap_params_def)
  have 3: "py_getitem gap_params ''symbol'' = Inr (JStr ''ETHBTC'')"
    by (simp add: gap_params_def)
  have 4: "hashable (JStr ''ETHBTC'') = Inr (KStr ''ETHBTC'')" by simp
  have 5: "seq_no synced (KStr ''ETHBTC'') = Some (JInt 5)" by (simp add: synced_def)
  have 6: "py_add1 (JInt 5) = Inr 6" by simp
  have 7: "py_num (JInt 7) \<noteq> Some 6" by simp
  from sequence_gap_raises [OF 1 2 3 4 5 6 7, of example_feed 3] 5 6 7
  show ?thesis by (simp add: synced_def)
qed

text \<open>The claim as stated fails where Python rounds the sum.  With the last confirmed number
  \<^verbatim>\<open>Decimal('1E+28')\<close>, the sum \<^verbatim>\<open>s + 1\<close> is \<^verbatim>\<open>Decimal('1.000000000000000000000000000E+28')\<close>, so
  a frame that repeats the number \<^verbatim>\<open>1E+28\<close>, which is not \<open>s + 1\<close>, passes the check and is
  dispatched: the snapshot it carries replaces the replica and is emitted.\<close>

theorem sequence_rounded_counterexample:
  "seq_no synced_rounded (KStr ''ETHBTC'') = Some (JDec (10 ^ 28))
   \<and> py_getitem rounded_frame ''params'' = Inr rounded_params
   \<and> py_getitem rounded_params ''sequence'' = Inr (JDec (10 ^ 28))
   \<and> py_num (JDec (10 ^ 28)) \<noteq> Some (10 ^ 28 + 1)
   \<and> fst (message_handler example_feed rounded_frame 3 synced_rounded) = Returned
   \<and> l2_book (snd (message_handler example_feed rounded_frame 3 synced_rounded)) ''ETHBTC'' =
       Some \<lparr>bid = [100 \<mapsto> 1], ask = Map.empty\<rparr>
   \<and> l2_book synced_rounded ''ETHBTC'' = Some \<lparr>bid = [100 \<mapsto> 1], ask = [101 \<mapsto> 2]\<rparr>
   \<and> events synced_rounded = []
   \<and> events (snd (message_handler example_feed rounded_frame 3 synced_rounded)) =
       [BookEv \<lparr>bk_book = \<lparr>bid = [100 \<mapsto> 1], ask = Map.empty\<rparr>, bk_symbol = ''ETHBTC'',
                bk_forced = True, bk_delta = None, bk_timestamp = 3, bk_receipt_timestamp = 3\<rparr>]"
proof -
  have check: "sequence_check rounded_frame synced_rounded = (Returned, synced_rounded)"
    using rounded_successor
    by (simp add: sequence_check_def carries_sequence_def rounded_frame_def rounded_params_def
        synced_rounded_def py_add1_ne_def del: py_add1.simps)
  have snap: "HitBTC_snapshot example_feed rounded_params 3 synced_rounded =
     (Returned,
      synced_rounded\<lparr>l2_book := [''ETHBTC'' \<mapsto> \<lparr>bid = [100 \<mapsto> 1], ask = Map.empty\<rparr>],
            events := [BookEv \<lparr>bk_book = \<lparr>bid = [100 \<mapsto> 1], ask = Map.empty\<rparr>,
                              bk_symbol = ''ETHBTC'', bk_forced = True, bk_delta = None,
                              bk_timestamp = 3, bk_receipt_timestamp = 3\<rparr>]\<rparr>)"
    by (simp add: HitBTC_snapshot_def snapshot_side_def snapshot_entry_def entry_level_def
        example_feed_def Decimal_of_number_def rounded_params_def level_entry_def
        synced_rounded_def book_callback_def)
  have "message_handler example_feed rounded_frame 3 synced_rounded =
          HitBTC_snapshot example_feed rounded_params 3 synced_rounded"
    unfolding message_handler_def check
    by (simp add: dispatch_def with_item_def rounded_frame_def)
  with snap show ?thesis
    by (simp add: synced_rounded_def book_A_def rounded_frame_def rounded_params_def)
qed

subsection \<open>Frames that are dropped\<close>

lemma no_sequence_check: "carries_sequence msg = Inr False \<Longrightarrow> sequence_check msg st = (Returned, st)"
  by (simp add: sequence_check_def)

lemma no_sequence_carried:
  assumes "py_contains ''params'' msg = Inr False
         \<or> (\<exists>p. py_getitem msg ''params'' = Inr p \<and> py_contains ''sequence'' p = Inr False)"
  shows "carries_sequence msg = Inr False"
  using assms by (auto simp add: carries_sequence_def getitem_contains)

text \<open>
  Claim C5, as the code has it.  The sequence check comes before the dispatch, whatever the
  method, and it looks for \<^verbatim>\<open>sequence\<close> in whatever the frame has under \<^verbatim>\<open>params\<close>.  So the claim
  holds of the frames that have no \<^verbatim>\<open>params\<close>, or whose \<^verbatim>\<open>params\<close> is an object, an array or a
  string in which \<^verbatim>\<open>sequence\<close> does not occur: such a frame whose \<^verbatim>\<open>method\<close> is none of the five
  known ones, or which has no \<^verbatim>\<open>method\<close> and a \<^verbatim>\<open>channel\<close> other than \<^verbatim>\<open>ticker\<close>, is logged as
  invalid, and such a frame with neither key that has an \<^verbatim>\<open>error\<close> key or a false \<^verbatim>\<open>result\<close> is
  logged as a server error; in each case the handler returns, and the log line is the only
  change of the state.
\<close>

theorem unknown_frame_dropped:
  assumes "py_contains ''params'' msg = Inr False
         \<or> (\<exists>p. py_getitem msg ''params'' = Inr p \<and> py_contains ''sequence'' p = Inr False)"
  shows "(py_getitem msg ''method'' = Inr m \<and> m \<notin> set known_methods \<longrightarrow>
            message_handler env msg timestamp st =
              (Returned, st\<lparr>logged := logged st @ [LOG_invalid_message msg]\<rparr>))
       \<and> (py_contains ''method'' msg = Inr False \<and> py_getitem msg ''channel'' = Inr c \<and> c \<noteq> JStr ''ticker'' \<longrightarrow>
            message_handler env msg timestamp st =
              (Returned, st\<lparr>logged := logged st @ [LOG_invalid_message msg]\<rparr>))
       \<and> (py_contains ''method'' msg = Inr False \<and> py_contains ''channel'' msg = Inr False \<and>
            (py_contains ''error'' msg = Inr True \<or> (py_getitem msg ''result'' = Inr r \<and> \<not> py_truthy r)) \<longrightarrow>
            message_handler env msg timestamp st =
              (Returned, st\<lparr>logged := logged st @ [LOG_server_error msg]\<rparr>))"
proof (intro conjI impI)
    assume "py_getitem msg ''method'' = Inr m \<and> m \<notin> set known_methods"
    then show "message_handler env msg timestamp st =
        (Returned, st\<lparr>logged := logged st @ [LOG_invalid_message msg]\<rparr>)"
      using no_sequence_carried [OF assms]
      by (simp add: message_handler_def no_sequence_check dispatch_def getitem_contains
          with_item_def LOG_def known_methods_def)
  next
    assume "py_contains ''method'' msg = Inr False \<and> py_getitem msg ''channel'' = Inr c \<and> c \<noteq> JStr ''ticker''"
    then show "message_handler env msg timestamp st =
        (Returned, st\<lparr>logged := logged st @ [LOG_invalid_message msg]\<rparr>)"
      using no_sequence_carried [OF assms]
      by (simp add: message_handler_def no_sequence_check dispatch_def getitem_contains
          with_item_def LOG_def)
  next
    assume a: "py_contains ''method'' msg = Inr False \<and> py_contains ''channel'' msg = Inr False \<and>
              (py_contains ''error'' msg = Inr True \<or> (py_getitem msg ''result'' = Inr r \<and> \<not> py_truthy r))"
    show "message_handler env msg timestamp st =
        (Returned, st\<lparr>logged := logged st @ [LOG_server_error msg]\<rparr>)"
    proof (cases "py_contains ''error'' msg = Inr True")
      case True
      with a no_sequence_carried [OF assms] show ?thesis
        by (simp add: message_handler_def no_sequence_check dispatch_def with_item_def LOG_def)
    next
      case False
      with a have r: "py_getitem msg ''result'' = Inr r" "\<not> py_truthy r" by auto
      from r(1) False have "py_contains ''error'' msg = Inr False"
        using getitem_contains_other [of msg "''result''" r "''error''"] by simp
      with a r no_sequence_carried [OF assms] show ?thesis
        by (simp add: message_handler_def no_sequence_check dispatch_def with_item_def LOG_def)
    qed
qed

theorem unknown_frame_dropped_witness:
  "py_getitem heartbeat_frame ''params'' = Inr (JObj [(''symbol'', JStr ''ETHBTC'')])
   \<and> py_contains ''sequence'' (JObj [(''symbol'', JStr ''ETHBTC'')]) = Inr False
   \<and> py_contains ''params'' candles_frame = Inr False
   \<and> message_handler example_feed heartbeat_frame 3 synced =
       (Returned, synced\<lparr>logged := [LOG_invalid_message heartbeat_frame]\<rparr>)
   \<and> message_handler example_feed candles_frame 3 synced =
       (Returned, synced\<lparr>logged := [LOG_invalid_message candles_frame]\<rparr>)
   \<and> message_handler example_feed error_frame 3 synced =
       (Returned, synced\<lparr>logged := [LOG_server_error error_frame]\<rparr>)
   \<and> message_handler example_feed empty_result_frame 3 synced =
       (Returned, synced\<lparr>logged := [LOG_server_error empty_result_frame]\<rparr>)"
proof -
  have hp: "py_getitem heartbeat_frame ''params'' = Inr (JObj [(''symbol'', JStr ''ETHBTC'')])"
    and hs: "py_contains ''sequence'' (JObj [(''symbol'', JStr ''ETHBTC'')]) = Inr False"
    by (simp_all add: heartbeat_frame_def)
  from hp hs have h: "py_contains ''params'' heartbeat_frame = Inr False
      \<or> (\<exists>p. py_getitem heartbeat_frame ''params'' = Inr p \<and> py_contains ''sequence'' p = Inr False)"
    by blast
  have cp: "py_contains ''params'' candles_frame = Inr False"
    by (simp add: candles_frame_def)
  then have c: "py_contains ''params'' candles_frame = Inr False
      \<or> (\<exists>p. py_getitem candles_frame ''params'' = Inr p \<and> py_contains ''sequence'' p = Inr False)"
    by (rule disjI1)
  have "py_contains ''params'' error_frame = Inr False"
    by (simp add: error_frame_def)
  then have e: "py_contains ''params'' error_frame = Inr False
      \<or> (\<exists>p. py_getitem error_frame ''params'' = Inr p \<and> py_contains ''sequence'' p = Inr False)"
    by (rule disjI1)
  have "py_contains ''params'' empty_result_frame = Inr False"
    by (simp add: empty_result_frame_def)
  then have r: "py_contains ''params'' empty_result_frame = Inr False
      \<or> (\<exists>p. py_getitem empty_result_frame ''params'' = Inr p \<and> py_contains ''sequence'' p = Inr False)"
    by (rule disjI1)
  have "message_handler example_feed heartbeat_frame 3 synced =
       (Returned, synced\<lparr>logged := logged synced @ [LOG_invalid_message heartbeat_frame]\<rparr>)"
    using unknown_frame_dropped [OF h, of "JStr ''heartbeat''" example_feed 3 synced]
    by (simp add: heartbeat_frame_def known_methods_def)
  moreover have "message_handler example_feed candles_frame 3 synced =
       (Returned, synced\<lparr>logged := logged synced @ [LOG_invalid_message candles_frame]\<rparr>)"
    using unknown_frame_dropped [OF c, of _ example_feed 3 synced "JStr ''candles''"]
    by (simp add: candles_frame_def)
  moreover have "message_handler example_feed error_frame 3 synced =
       (Returned, synced\<lparr>logged := logged synced @ [LOG_server_error error_frame]\<rparr>)"
    using unknown_frame_dropped [OF e, of _ example_feed 3 synced]
    by (simp add: error_frame_def)
  moreover have "message_handler example_feed empty_result_frame 3 synced =
       (Returned, synced\<lparr>logged := logged synced @ [LOG_server_error empty_result_frame]\<rparr>)"
    using unknown_frame_dropped [OF r, of _ example_feed 3 synced _ "JBool False"]
    by (simp add: empty_result_frame_def)
  ultimately show ?thesis using hp hs cp by (simp add: synced_def)
qed

text \<open>The claim as stated fails: a frame of an unknown method that carries a sequence number
  is recorded by the sequence check before it is dropped, and raises when the number is not
  the next one; a frame of an unknown method whose \<^verbatim>\<open>params\<close> is \<^verbatim>\<open>null\<close> raises the TypeError
  of \<^verbatim>\<open>'sequence' in None\<close>.\<close>

theorem unknown_frame_sequenced_counterexample:
  "py_getitem (heartbeat_sequenced 6) ''method'' = Inr (JStr ''heartbeat'')
   \<and> JStr ''heartbeat'' \<notin> set known_methods
   \<and> fst (message_handler example_feed (heartbeat_sequenced 6) 3 synced) = Returned
   \<and> seq_no (snd (message_handler example_feed (heartbeat_sequenced 6) 3 synced)) (KStr ''ETHBTC'')
       = Some (JInt 6)
   \<and> seq_no (snd (message_handler example_feed (heartbeat_sequenced 6) 3 synced)) \<noteq> seq_no synced
   \<and> fst (message_handler example_feed (heartbeat_sequenced 9) 3 synced) = Raised MissingSequenceNumber
   \<and> py_getitem heartbeat_null ''method'' = Inr (JStr ''heartbeat'')
   \<and> message_handler example_feed heartbeat_null 3 synced = (Raised TypeError, synced)"
proof -
  have 6: "message_handler example_feed (heartbeat_sequenced 6) 3 synced =
     (Returned, synced\<lparr>seq_no := [KStr ''ETHBTC'' \<mapsto> JInt 6],
                       logged := [LOG_invalid_message (heartbeat_sequenced 6)]\<rparr>)"
    by (simp add: message_handler_def sequence_check_def carries_sequence_def dispatch_def
        with_item_def LOG_def heartbeat_sequenced_def synced_def py_add1_ne_def)
  have 9: "fst (message_handler example_feed (heartbeat_sequenced 9) 3 synced) = Raised MissingSequenceNumber"
    by (simp add: message_handler_def sequence_check_def carries_sequence_def
        heartbeat_sequenced_def synced_def py_add1_ne_def)
  have n: "message_handler example_feed heartbeat_null 3 synced = (Raised TypeError, synced)"
    by (simp add: message_handler_def sequence_check_def carries_sequence_def heartbeat_null_def)
  have "[KStr ''ETHBTC'' \<mapsto> JInt 6] \<noteq> seq_no synced"
  proof
    assume "[KStr ''ETHBTC'' \<mapsto> JInt 6] = seq_no synced"
    then have "[KStr ''ETHBTC'' \<mapsto> JInt 6] (KStr ''ETHBTC'') = seq_no synced (KStr ''ETHBTC'')"
      by simp
    then show False by (simp add: synced_def)
  qed
  with 6 9 n show ?thesis by (simp add: heartbeat_sequenced_def known_methods_def heartbeat_null_def)
qed

subsection \<open>Trades\<close>

lemma trade_args_timestamps:
  assumes "trade_args env pair update = Inr ev"
  shows "exchange_timestamp env update = Inr (tr_receipt_timestamp ev)
       \<and> tr_timestamp ev = tr_receipt_timestamp ev"
  using assms by (auto simp add: trade_args_def exchange_timestamp_def ebind_Inr_iff)

lemma trades_loop_events:
  "\<exists>evs. events (snd (trades_loop env pair updates timestamp st)) = events st @ map TradeEv evs
     \<and> length evs \<le> length updates
     \<and> (fst (trades_loop env pair updates timestamp st) = Returned \<longrightarrow> length evs = length updates)
     \<and> (\<forall>i < length evs. exchange_timestamp env (updates ! i) = Inr (tr_receipt_timestamp (evs ! i))
                       \<and> tr_timestamp (evs ! i) = tr_receipt_timestamp (evs ! i))"
proof (induction updates arbitrary: timestamp st)
  case Nil
  show ?case by simp
next
  case (Cons update rest)
  show ?case
  proof (cases "trade_args env pair update")
    case (Inl e)
    then show ?thesis by simp
  next
    case (Inr ev)
    from Cons.IH [of "tr_timestamp ev" "callback (TradeEv ev) st"]
    obtain evs where evs:
      "events (snd (trades_loop env pair rest (tr_timestamp ev) (callback (TradeEv ev) st))) =
         events (callback (TradeEv ev) st) @ map TradeEv evs"
      "length evs \<le> length rest"
      "fst (trades_loop env pair rest (tr_timestamp ev) (callback (TradeEv ev) st)) = Returned \<longrightarrow>
         length evs = length rest"
      "\<forall>i < length evs. exchange_timestamp env (rest ! i) = Inr (tr_receipt_timestamp (evs ! i))
                       \<and> tr_timestamp (evs ! i) = tr_receipt_timestamp (evs ! i)"
      by blast
    have "\<forall>i < length (ev # evs).
            exchange_timestamp env ((update # rest) ! i) = Inr (tr_receipt_timestamp ((ev # evs) ! i))
          \<and> tr_timestamp ((ev # evs) ! i) = tr_receipt_timestamp ((ev # evs) ! i)"
      using evs(4) trade_args_timestamps [OF Inr] by (auto simp add: nth_Cons split: nat.splits)
    with evs(1,2,3) Inr show ?thesis
      by (intro exI [of _ "ev # evs"]) (simp add: callback_def)
  qed
qed

lemma trades_loop_timestamp:
  "trades_loop env pair updates timestamp st = trades_loop env pair updates timestamp' st"
  by (cases updates) (simp_all split: sum.splits)

text \<open>
  Claim C10.  The events a trades frame adds to the stream are trade events, one for each
  entry of the batch in order (all of them when the handler returns, those before the
  failing entry when it raises).  The receipt timestamp of each is the normalized timestamp
  the exchange gave that entry, the same value as its timestamp field.  The receipt
  timestamp passed to the handler has no influence on what the handler does: it is never
  reported.
\<close>

theorem trades_receipt_timestamp:
  "\<exists>evs. events (snd (HitBTC_trades env msg timestamp st)) = events st @ map TradeEv evs
     \<and> length evs \<le> length (batch msg)
     \<and> (fst (HitBTC_trades env msg timestamp st) = Returned \<longrightarrow> length evs = length (batch msg))
     \<and> (\<forall>i < length evs. exchange_timestamp env (batch msg ! i) = Inr (tr_receipt_timestamp (evs ! i))
                       \<and> tr_timestamp (evs ! i) = tr_receipt_timestamp (evs ! i))
     \<and> HitBTC_trades env msg timestamp' st = HitBTC_trades env msg timestamp st"
proof (cases "ebind (py_getitem msg ''symbol'') (\<lambda>s. exchange_symbol_to_std_symbol env s True)")
  case (Inl e)
  then show ?thesis by (simp add: HitBTC_trades_def)
next
  case pair: (Inr pair)
  show ?thesis
  proof (cases "ebind (py_getitem msg ''data'') py_iter")
    case (Inl e)
    with pair show ?thesis by (simp add: HitBTC_trades_def)
  next
    case (Inr updates)
    with pair have "HitBTC_trades env msg timestamp st = trades_loop env pair updates timestamp st"
      "HitBTC_trades env msg timestamp' st = trades_loop env pair updates timestamp' st"
      "batch msg = updates"
      by (simp_all add: HitBTC_trades_def batch_def)
    then show ?thesis
      using trades_loop_events [of env pair updates timestamp st]
        trades_loop_timestamp [of env pair updates timestamp' st timestamp]
      by simp
  qed
qed

lemma trades_frame_returns: "fst (HitBTC_trades example_feed trades_frame 999 fresh) = Returned"
  by (simp add: HitBTC_trades_def trades_frame_def trade_entry_def trade_args_def example_feed_def
      Decimal_of_number_def callback_def)

theorem trades_receipt_timestamp_witness:
  "\<exists>evs. events (snd (HitBTC_trades example_feed trades_frame 999 fresh)) = map TradeEv evs
     \<and> length evs = 2
     \<and> tr_receipt_timestamp (evs ! 0) = 10 \<and> tr_receipt_timestamp (evs ! 1) = 20
     \<and> tr_timestamp (evs ! 0) = 10 \<and> tr_timestamp (evs ! 1) = 20"
proof -
  from trades_receipt_timestamp [of example_feed trades_frame 999 fresh 999]
  obtain evs where evs:
    "events (snd (HitBTC_trades example_feed trades_frame 999 fresh)) = events fresh @ map TradeEv evs"
    "fst (HitBTC_trades example_feed trades_frame 999 fresh) = Returned \<longrightarrow>
       length evs = length (batch trades_frame)"
    "\<forall>i < length evs.
       exchange_timestamp example_feed (batch trades_frame ! i) = Inr (tr_receipt_timestamp (evs ! i))
       \<and> tr_timestamp (evs ! i) = tr_receipt_timestamp (evs ! i)"
    by blast
  have b: "batch trades_frame = [trade_entry 1 10, trade_entry 2 20]"
    by (simp add: batch_def trades_frame_def)
  with evs(2) trades_frame_returns have len: "length evs = 2" by simp
  have t: "exchange_timestamp example_feed (trade_entry n t) = Inr (of_int t)" for n t
    by (simp add: exchange_timestamp_def trade_entry_def example_feed_def Decimal_of_number_def)
  from evs(3) len have "exchange_timestamp example_feed (batch trades_frame ! 0) = Inr (tr_receipt_timestamp (evs ! 0))
      \<and> tr_timestamp (evs ! 0) = tr_receipt_timestamp (evs ! 0)"
    "exchange_timestamp example_feed (batch trades_frame ! 1) = Inr (tr_receipt_timestamp (evs ! 1))
      \<and> tr_timestamp (evs ! 1) = tr_receipt_timestamp (evs ! 1)"
    by simp_all
  with b have "tr_receipt_timestamp (evs ! 0) = 10" "tr_receipt_timestamp (evs ! 1) = 20"
    "tr_timestamp (evs ! 0) = 10" "tr_timestamp (evs ! 1) = 20"
    by (simp_all add: t)
  with evs(1) len show ?thesis
    by (intro exI [of _ evs]) (simp add: fresh_def)
qed

section \<open>Properties of the connections\<close>

subsection \<open>Minute boundaries\<close>

lemma next_minute_dvd: "60 dvd next_minute x"
  by (simp add: next_minute_def)

lemma multiple_above: "(60::int) dvd n \<Longrightarrow> 60 * k < n \<Longrightarrow> 60 * k + 60 \<le> n"
proof (elim dvdE)
  fix j assume n: "n = 60 * j" and "60 * k < n"
  then have "k < j" by simp
  then have "k + 1 \<le> j" by simp
  then have "60 * (k + 1) \<le> 60 * j" by (simp only: mult_le_cancel_left_pos zero_less_numeral)
  with n show "60 * k + 60 \<le> n" by simp
qed

lemma multiple_below: "(60::int) dvd n \<Longrightarrow> n < 60 * k + 60 \<Longrightarrow> n \<le> 60 * k"
proof (elim dvdE)
  fix j assume n: "n = 60 * j" and "n < 60 * k + 60"
  then have "60 * j < 60 * (k + 1)" by simp
  then have "j < k + 1" by (simp only: mult_less_cancel_left_pos zero_less_numeral)
  then have "j \<le> k" by simp
  with n show "n \<le> 60 * k" by simp
qed

lemma next_minute_inside:
  assumes "0 \<le> k" "of_int (60 * k) < x" "x < of_int (60 * k + 60)"
  shows "next_minute x = 60 * k + 60"
proof -
  have "(0::rat) \<le> of_int (60 * k)" using assms(1) by simp
  with assms(2) have "0 \<le> x" by linarith
  then have "py_int x = \<lfloor>x\<rfloor>" by (simp add: py_int_def)
  moreover have "60 * k \<le> \<lfloor>x\<rfloor>" using assms(2) by (simp add: le_floor_iff less_imp_le)
  moreover have "\<lfloor>x\<rfloor> < 60 * k + 60" using assms(3) by (simp add: floor_less_iff)
  ultimately have "py_int x div 60 = k"
    by arith
  then show ?thesis by (simp add: next_minute_def)
qed

lemma next_minute_after: "now < of_int (next_minute now)"
proof -
  have "py_int now < (py_int now div 60 + 1) * 60" by arith
  then have "py_int now + 1 \<le> next_minute now" by (simp add: next_minute_def)
  then have "(of_int (py_int now + 1) :: rat) \<le> of_int (next_minute now)"
    by (simp only: of_int_le_iff)
  moreover have "now < of_int (py_int now + 1)"
    by (cases "0 \<le> now") (simp_all add: py_int_def, linarith+)
  ultimately show ?thesis by linarith
qed

lemma next_minute_within:
  assumes "0 \<le> t"
  shows "of_int (next_minute t) \<le> t + 60"
proof -
  have "py_int t = \<lfloor>t\<rfloor>" using assms by (simp add: py_int_def)
  moreover have "(\<lfloor>t\<rfloor> div 60 + 1) * 60 \<le> \<lfloor>t\<rfloor> + 60" by arith
  ultimately have "next_minute t \<le> \<lfloor>t\<rfloor> + 60" by (simp add: next_minute_def)
  then have "(of_int (next_minute t) :: rat) \<le> of_int (\<lfloor>t\<rfloor> + 60)" by (simp only: of_int_le_iff)
  then have "(of_int (next_minute t) :: rat) \<le> of_int \<lfloor>t\<rfloor> + 60" by simp
  moreover have "of_int \<lfloor>t\<rfloor> \<le> t" by simp
  ultimately show ?thesis by linarith
qed

subsection \<open>The throttle\<close>

lemma throttle_limit_kept [simp]: "throttle_limit (snd (throttle w now tw tk c)) = throttle_limit c"
  by (simp add: throttle_def split: prod.splits)

lemma account_aligned:
  assumes "aligned c" and "account w now c = (used, reset)"
  shows "60 dvd reset \<and> \<not> of_int reset < now"
proof -
  have "\<not> of_int (next_minute now) < now" using next_minute_after [of now] by simp
  then show ?thesis using assms
    by (auto simp add: account_def aligned_def Let_def next_minute_dvd split: option.splits if_splits)
qed

lemma account_not_expired: "now \<le> of_int (snd (account weight now c))"
proof -
  have "now \<le> of_int (next_minute now)" using next_minute_after [of now] by simp
  then show ?thesis by (simp add: account_def Let_def split: option.splits)
qed

lemma throttle_aligned:
  assumes "aligned c" and "0 \<le> w"
  shows "aligned (snd (throttle w now tw tk c))"
proof -
  obtain used reset where a: "account w now c = (used, reset)" by (cases "account w now c")
  with assms have "0 \<le> used"
    by (auto simp add: account_def aligned_def Let_def split: if_splits)
  moreover from a assms(1) have "60 dvd reset" by (simp add: account_aligned)
  ultimately show ?thesis using a assms(2)
    by (simp add: throttle_def aligned_def next_minute_dvd)
qed

lemma throttle_all_aligned:
  "aligned c \<Longrightarrow> list_all (\<lambda>r. 0 \<le> rd_weight r) rs \<Longrightarrow> aligned (throttle_all rs c)"
  by (induction rs arbitrary: c) (simp_all add: throttle_read_def throttle_aligned)

lemma throttle_all_limit [simp]: "throttle_limit (throttle_all rs c) = throttle_limit c"
  by (induction rs arbitrary: c) (simp_all add: throttle_read_def)

lemma init_aligned: "aligned (fst (ThrottledHTTPAsyncConn_init conn_id limit interval n))"
  by (simp add: ThrottledHTTPAsyncConn_init_def HTTPAsyncConn_init_def AsyncConnection_init_def
      aligned_def async_connection.defs)

lemma init_limit: "throttle_limit (fst (ThrottledHTTPAsyncConn_init conn_id limit interval n)) = limit"
  by (simp add: ThrottledHTTPAsyncConn_init_def HTTPAsyncConn_init_def AsyncConnection_init_def
      async_connection.defs)

lemma charged_nonneg: "aligned c \<Longrightarrow> 0 \<le> charged k c"
  by (simp add: aligned_def charged_def split: option.splits)

lemma account_inside:
  assumes al: "aligned c" and k: "0 \<le> k"
    and lo: "of_int (60 * k) < now" and hi: "now < of_int (60 * k + 60)"
    and a: "account w now c = (used, reset)"
  shows "used = charged k c + w \<and> 60 * k + 60 \<le> reset"
proof -
  have nm: "next_minute now = 60 * k + 60" using k lo hi by (rule next_minute_inside)
  have big: "60 * k + 60 \<le> n" if "60 dvd n" "\<not> of_int n < now" for n
  proof -
    from that(2) lo have "of_int (60 * k) < (of_int n :: rat)" by linarith
    then have "60 * k < n" by (simp only: of_int_less_iff)
    with that(1) show ?thesis by (rule multiple_above)
  qed
  have small: "of_int n < now" if "n < 60 * k + 60" "60 dvd n" for n
  proof -
    from that(2,1) have "n \<le> 60 * k" by (rule multiple_below)
    then have "(of_int n :: rat) \<le> of_int (60 * k)" by (simp only: of_int_le_iff)
    with lo show ?thesis by linarith
  qed
  show ?thesis
  proof (cases "next_reset c")
    case None
    with a nm hi show ?thesis by (simp add: account_def charged_def Let_def)
  next
    case (Some n)
    with al have dvd: "60 dvd n" by (simp add: aligned_def)
    show ?thesis
    proof (cases "n = 0")
      case True
      with Some a nm hi show ?thesis by (simp add: account_def charged_def Let_def)
    next
      case False
      show ?thesis
      proof (cases "60 * k + 60 \<le> n")
        case True
        then have "(of_int (60 * k + 60) :: rat) \<le> of_int n" by (simp only: of_int_le_iff)
        with hi have "\<not> of_int n < now" by linarith
        with Some False True a show ?thesis by (simp add: account_def charged_def Let_def)
      next
        case stale: False
        then have "of_int n < now" using dvd small by simp
        with Some False stale a nm show ?thesis by (simp add: account_def charged_def Let_def)
      qed
    qed
  qed
qed

lemma throttle_pass:
  assumes al: "aligned c" and k: "0 \<le> k" and w: "0 \<le> w"
    and lo: "of_int (60 * k) < now" and hi: "now < of_int (60 * k + 60)"
    and lim: "throttle_limit c = Some l"
    and t: "throttle w now tw tk c = (None, c')"
  shows "charged k c' = charged k c + w \<and> charged k c' < l"
proof -
  obtain used reset where a: "account w now c = (used, reset)" by (cases "account w now c")
  from account_inside [OF al k lo hi a] have u: "used = charged k c + w" and r: "60 * k + 60 \<le> reset"
    by simp_all
  from t a lim have "\<not> l \<le> used" and c': "c' = c\<lparr>next_reset := Some reset, used_limit := used\<rparr>"
    by (auto simp add: throttle_def limit_reached_def split: if_splits)
  with u r show ?thesis by (simp add: charged_def)
qed

lemma throttle_suspended:
  assumes al: "aligned c" and k: "0 \<le> k"
    and lo: "of_int (60 * k) < now" and hi: "now < of_int (60 * k + 60)"
    and t: "throttle w now tw tk c = (Some d, c')"
  shows "of_int (60 * k + 60) \<le> tw + d"
proof -
  obtain used reset where a: "account w now c = (used, reset)" by (cases "account w now c")
  from account_inside [OF al k lo hi a] have "60 * k + 60 \<le> reset" by simp
  then have "(of_int (60 * k + 60) :: rat) \<le> of_int reset" by (simp only: of_int_le_iff)
  moreover from t a have "d = of_int reset - tw" by (auto simp add: throttle_def split: if_splits)
  ultimately show ?thesis by simp
qed

lemma accepted_bound:
  assumes "aligned c" and "0 \<le> k" and "throttle_limit c = Some l"
    and "list_all (\<lambda>r. 0 \<le> rd_weight r) rs" and "list_all (inside_minute k) rs"
    and "honest_clock c rs"
  shows "accepted c rs \<le> max 0 (l - 1 - charged k c)"
  using assms
proof (induction rs arbitrary: c)
  case Nil
  then show ?case by simp
next
  case (Cons r rs)
  obtain res c' where t: "throttle (rd_weight r) (rd_now r) (rd_wait r) (rd_wake r) c = (res, c')"
    by (cases "throttle (rd_weight r) (rd_now r) (rd_wait r) (rd_wake r) c")
  from Cons.prems have w: "0 \<le> rd_weight r" and lo: "of_int (60 * k) < rd_now r"
    and hi: "rd_now r < of_int (60 * k + 60)"
    by (simp_all add: inside_minute_def)
  have al': "aligned c'" using throttle_aligned [OF Cons.prems(1) w, of "rd_now r" "rd_wait r" "rd_wake r"] t
    by simp
  have lim': "throttle_limit c' = Some l"
    using throttle_limit_kept [of "rd_weight r" "rd_now r" "rd_wait r" "rd_wake r" c] t Cons.prems(3)
    by simp
  show ?case
  proof (cases res)
    case None
    with t Cons.prems have "honest_clock c' rs" by (simp add: throttle_read_def)
    with al' lim' Cons.prems have "accepted c' rs \<le> max 0 (l - 1 - charged k c')"
      by (intro Cons.IH) simp_all
    moreover from t None have "throttle (rd_weight r) (rd_now r) (rd_wait r) (rd_wake r) c = (None, c')"
      by simp
    with Cons.prems(1,2) w lo hi Cons.prems(3)
    have "charged k c' = charged k c + rd_weight r \<and> charged k c' < l" by (rule throttle_pass)
    ultimately show ?thesis using t None by (simp add: throttle_read_def)
  next
    case (Some d)
    with t Cons.prems have hc: "rd_wait r + d \<le> rd_wake r" "list_all (\<lambda>r'. rd_wake r \<le> rd_now r') rs"
      by (simp_all add: throttle_read_def)
    from t Some have "throttle (rd_weight r) (rd_now r) (rd_wait r) (rd_wake r) c = (Some d, c')"
      by simp
    with Cons.prems(1,2) lo hi
    have "of_int (60 * k + 60) \<le> rd_wait r + d" by (rule throttle_suspended)
    with hc(1) have late: "of_int (60 * k + 60) \<le> rd_wake r" by linarith
    have "rs = []"
    proof (cases rs)
      case (Cons r' rest)
      with hc(2) have "rd_wake r \<le> rd_now r'" by simp
      moreover from Cons Cons.prems(5) have "rd_now r' < of_int (60 * k + 60)"
        by (simp add: inside_minute_def)
      ultimately show ?thesis using late by linarith
    qed simp
    with t Some show ?thesis by (simp add: throttle_read_def)
  qed
qed

lemma HTTPAsyncConn_read_throttle_fields:
  "used_limit (snd (snd (HTTPAsyncConn_read sink t r address header rh c))) = used_limit c
   \<and> next_reset (snd (snd (HTTPAsyncConn_read sink t r address header rh c))) = next_reset c"
  by (simp add: HTTPAsyncConn_read_def HTTPAsyncConn_open_def Let_def)

text \<open>
  Claim C2, as the code has it.  The window is restarted when the clock has passed its end
  (\<^verbatim>\<open>next_reset < now\<close>), so a call made at the very second a minute begins is still charged to
  the window that ends there.  For calls made strictly inside one minute the claim holds:
  take a throttled connection of finite limit after any history of calls of non-negative
  weight, and calls of non-negative weight made strictly inside minute \<open>k\<close>, with a clock
  that does not run backwards across a suspension; then the weights of the calls let
  through without a suspension sum to at most the limit.  And whenever the weight
  accumulated by a call reaches the limit, the call asks to sleep for the time from the
  reading of the clock to the end of the window, which is not before the call, and afterwards
  the used weight is the weight of that call and the window ends at the first full minute
  after the reading of the clock at wake-up; the read then goes on with that state.
\<close>

theorem throttle_minute_bound:
  assumes c: "c = throttle_all history (fst (ThrottledHTTPAsyncConn_init conn_id (Some limit) interval n))"
    and hist: "list_all (\<lambda>r. 0 \<le> rd_weight r) history"
    and weights: "list_all (\<lambda>r. 0 \<le> rd_weight r) reads"
    and limit: "0 \<le> limit" and k: "0 \<le> k"
    and inside: "list_all (inside_minute k) reads"
    and clock: "honest_clock c reads"
  shows "accepted c reads \<le> limit
       \<and> (\<forall>weight now t_wait t_wake. limit_reached (fst (account weight now c)) (throttle_limit c) \<longrightarrow>
            throttle weight now t_wait t_wake c =
              (Some (of_int (snd (account weight now c)) - t_wait),
               c\<lparr>next_reset := Some (next_minute t_wake), used_limit := weight\<rparr>)
            \<and> now \<le> of_int (snd (account weight now c))
            \<and> t_wake < of_int (next_minute t_wake) \<and> 60 dvd next_minute t_wake
            \<and> (0 \<le> t_wake \<longrightarrow> of_int (next_minute t_wake) \<le> t_wake + 60)
            \<and> (\<forall>sink t_read r address header return_headers.
                 \<exists>res effects c'.
                   ThrottledHTTPAsyncConn_read sink weight now t_wait t_wake t_read r address header
                     return_headers c =
                     (res,
                      LOG_info ''Throttling kicked in''
                        # Sleep (of_int (snd (account weight now c)) - t_wait) # effects, c')
                   \<and> used_limit c' = weight \<and> next_reset c' = Some (next_minute t_wake)))"
proof (intro conjI allI impI)
  have al: "aligned c" unfolding c using init_aligned hist by (rule throttle_all_aligned)
  have lim: "throttle_limit c = Some limit" by (simp add: c init_limit)
  from al k lim weights inside clock have "accepted c reads \<le> max 0 (limit - 1 - charged k c)"
    by (rule accepted_bound)
  moreover have "0 \<le> charged k c" using al by (rule charged_nonneg)
  ultimately show "accepted c reads \<le> limit" using limit by simp
next
  fix weight now t_wait t_wake
  assume reached: "limit_reached (fst (account weight now c)) (throttle_limit c)"
  then show t: "throttle weight now t_wait t_wake c =
      (Some (of_int (snd (account weight now c)) - t_wait),
       c\<lparr>next_reset := Some (next_minute t_wake), used_limit := weight\<rparr>)"
    by (cases "account weight now c") (simp add: throttle_def)
  show "now \<le> of_int (snd (account weight now c))" by (rule account_not_expired)
  show "t_wake < of_int (next_minute t_wake)" by (rule next_minute_after)
  show "60 dvd next_minute t_wake" by (rule next_minute_dvd)
  show "of_int (next_minute t_wake) \<le> t_wake + 60" if "0 \<le> t_wake"
    using that by (rule next_minute_within)
  fix sink t_read r address header return_headers
  let ?c1 = "c\<lparr>next_reset := Some (next_minute t_wake), used_limit := weight\<rparr>"
  obtain res effects c' where h: "HTTPAsyncConn_read sink t_read r address header return_headers ?c1 = (res, effects, c')"
    by (cases "HTTPAsyncConn_read sink t_read r address header return_headers ?c1")
  with HTTPAsyncConn_read_throttle_fields [of sink t_read r address header return_headers ?c1]
  have "used_limit c' = weight \<and> next_reset c' = Some (next_minute t_wake)" by simp
  with t h show "\<exists>res effects c'.
       ThrottledHTTPAsyncConn_read sink weight now t_wait t_wake t_read r address header return_headers c =
         (res, LOG_info ''Throttling kicked in'' # Sleep (of_int (snd (account weight now c)) - t_wait) # effects, c')
       \<and> used_limit c' = weight \<and> next_reset c' = Some (next_minute t_wake)"
    by (simp add: ThrottledHTTPAsyncConn_read_def)
qed

lemma throttled_10: "throttled_10 = \<lparr>ident = ''rest.http.0'', received = 0, sent = 0, last_message = None,
     conn = None, throttle_limit = Some 10, throttle_interval = 60,
     used_limit = 0, next_reset = None\<rparr>"
  by (simp add: throttled_10_def ThrottledHTTPAsyncConn_init_def HTTPAsyncConn_init_def AsyncConnection_init_def async_connection.defs digit_char_def)

lemma throttled_10_two_reads:
  "throttle_all [read_at 4 121, read_at 4 122] throttled_10 =
     throttled_10\<lparr>next_reset := Some 180, used_limit := 8\<rparr>"
  by (simp add: throttle_read_def read_at_def throttle_def account_def throttled_10
      limit_reached_def next_minute_def py_int_def)

text \<open>Scenario B, with the minute boundary at 120: calls of weight 4 at 121 and 122 pass
  with 8 of 10 used; the call of weight 4 at 123 accumulates 12, sleeps the 57 seconds to
  180 and goes on with a used weight of 4.\<close>

theorem throttle_minute_bound_witness:
  "list_all (inside_minute 2) [read_at 4 121, read_at 4 122]
   \<and> honest_clock throttled_10 [read_at 4 121, read_at 4 122]
   \<and> accepted throttled_10 [read_at 4 121, read_at 4 122] = 8
   \<and> accepted throttled_10 [read_at 4 121, read_at 4 122] \<le> 10
   \<and> account 4 123 (throttle_all [read_at 4 121, read_at 4 122] throttled_10) = (12, 180)
   \<and> throttle 4 123 123 180 (throttle_all [read_at 4 121, read_at 4 122] throttled_10) =
       (Some 57, throttled_10\<lparr>next_reset := Some 240, used_limit := 4\<rparr>)"
proof -
  define c2 where "c2 = throttle_all [read_at 4 121, read_at 4 122] throttled_10"
  have c: "throttled_10 = throttle_all [] (fst (ThrottledHTTPAsyncConn_init ''rest'' (Some 10) 60 0))"
    by (simp add: throttled_10_def)
  have c2: "c2 = throttle_all [read_at 4 121, read_at 4 122]
                   (fst (ThrottledHTTPAsyncConn_init ''rest'' (Some 10) 60 0))"
    by (simp add: c2_def throttled_10_def)
  have c2_val: "c2 = throttled_10\<lparr>next_reset := Some 180, used_limit := 8\<rparr>"
    unfolding c2_def by (rule throttled_10_two_reads)
  have w: "list_all (\<lambda>r. 0 \<le> rd_weight r) [read_at 4 121, read_at 4 122]"
    by (simp add: read_at_def)
  have none: "list_all (\<lambda>r. 0 \<le> rd_weight r) []" "list_all (inside_minute 0) []" "honest_clock c2 []"
    by simp_all
  have i: "list_all (inside_minute 2) [read_at 4 121, read_at 4 122]"
    by (simp add: read_at_def inside_minute_def)
  have h: "honest_clock throttled_10 [read_at 4 121, read_at 4 122]"
    by (simp add: throttle_read_def read_at_def throttle_def account_def throttled_10
        limit_reached_def next_minute_def py_int_def)
  have a: "accepted throttled_10 [read_at 4 121, read_at 4 122] = 8"
    by (simp add: throttle_read_def read_at_def throttle_def account_def throttled_10
        limit_reached_def next_minute_def py_int_def)
  have acc: "account 4 123 c2 = (12, 180)"
    unfolding c2_val by (simp add: account_def throttled_10)
  have lim: "throttle_limit c2 = Some 10"
    by (simp add: c2_val throttled_10)
  have reached: "limit_reached (fst (account 4 123 c2)) (throttle_limit c2)"
    by (simp add: acc lim limit_reached_def)
  have ten: "(0::int) \<le> 10" and two: "(0::int) \<le> 2" and zero: "(0::int) \<le> 0" by simp_all
  have "accepted throttled_10 [read_at 4 121, read_at 4 122] \<le> 10"
    using throttle_minute_bound [OF c none(1) w ten two i h] by (rule conjunct1)
  moreover have "throttle 4 123 123 180 c2 =
      (Some (of_int (snd (account 4 123 c2)) - 123), c2\<lparr>next_reset := Some (next_minute 180), used_limit := 4\<rparr>)"
    using throttle_minute_bound [OF c2 w none(1) ten zero none(2,3), THEN conjunct2, rule_format,
        OF reached, of 123 180]
    by (rule conjunct1)
  then have "throttle 4 123 123 180 c2 = (Some 57, c2\<lparr>next_reset := Some 240, used_limit := 4\<rparr>)"
    by (simp add: acc next_minute_def py_int_def)
  moreover have "c2\<lparr>next_reset := Some 240, used_limit := 4\<rparr> =
      throttled_10\<lparr>next_reset := Some 240, used_limit := 4\<rparr>"
    by (simp add: c2_val)
  ultimately show ?thesis using i h a acc unfolding c2_def by simp
qed

text \<open>The claim as stated fails on the boundary: after a call of weight 1 at second 59, calls
  of weight 8 at seconds 60 and 61 lie in the same minute, pass without a suspension, and
  weigh 16 against a limit of 10.\<close>

theorem throttle_boundary_counterexample:
  "list_all (\<lambda>r. 60 \<le> rd_now r \<and> rd_now r < 120) [read_at 8 60, read_at 8 61]
   \<and> honest_clock (throttle_all [read_at 1 59] throttled_10) [read_at 8 60, read_at 8 61]
   \<and> accepted (throttle_all [read_at 1 59] throttled_10) [read_at 8 60, read_at 8 61] = 16
   \<and> throttle_limit (throttle_all [read_at 1 59] throttled_10) = Some 10
   \<and> \<not> accepted (throttle_all [read_at 1 59] throttled_10) [read_at 8 60, read_at 8 61] \<le> 10"
  by (simp add: throttle_read_def read_at_def throttle_def account_def throttled_10
      limit_reached_def next_minute_def py_int_def)

subsection \<open>Raw capture before the status check\<close>

lemma process_response_effects:
  "snd (process_response True now r address as_json as_text uuid) =
     [Sink (Some (body r)) now (str_uuid uuid) (Endpoint address), RaiseForStatus]"
  by (simp add: process_response_def Let_def)

lemma process_response_error:
  "fst (process_response sink now r address as_json as_text uuid) = Inl HTTPError \<longleftrightarrow> requests_raises r"
  by (simp add: process_response_def Let_def)

lemma poll_addresses_kept:
  "poll_addresses sink header addrs inputs c = (e, ys, effects, c', inputs') \<Longrightarrow>
   ident c' = ident c \<and> set inputs' \<subseteq> set inputs \<and> addresses c' = addresses c"
proof (induction addrs arbitrary: inputs c e ys effects c' inputs')
  case Nil
  then show ?case by simp
next
  case (Cons addr rest)
  show ?case
  proof (cases "is_open c")
    case False
    with Cons.prems show ?thesis by simp
  next
    case True
    show ?thesis
    proof (cases inputs)
      case Nil
      with True Cons.prems show ?thesis by simp
    next
      case (Cons i inputs0)
      obtain r now where i: "i = (r, now)" by (cases i)
      let ?c1 = "c\<lparr>received := received c + 1, last_message := Some now\<rparr>"
      show ?thesis
      proof (cases "aiohttp_raises r")
        case raises: True
        with True Cons i Cons.prems show ?thesis by (auto simp add: Let_def)
      next
        case False
        obtain e2 ys2 eff2 c2 in2 where rec: "poll_addresses sink header rest inputs0 ?c1 = (e2, ys2, eff2, c2, in2)"
          by (cases "poll_addresses sink header rest inputs0 ?c1") auto
        from Cons.IH [OF rec] have "ident c2 = ident c \<and> set in2 \<subseteq> set inputs0 \<and> addresses c2 = addresses c"
          by simp
        with True Cons i False rec Cons.prems show ?thesis by (auto simp add: Let_def)
      qed
    qed
  qed
qed

lemma poll_addresses_status_error:
  "poll_addresses True header addrs inputs c = (Some (Raises HTTPError), ys, effects, c', inputs') \<Longrightarrow>
   \<exists>before addr r now. effects = before @ [Get addr header, Sink (Some (body r)) now (ident c) (Endpoint addr), RaiseForStatus]
      \<and> (r, now) \<in> set inputs \<and> aiohttp_raises r"
proof (induction addrs arbitrary: inputs c ys effects c' inputs')
  case Nil
  then show ?case by simp
next
  case (Cons addr rest)
  from Cons.prems have op: "is_open c" by (auto split: if_splits)
  with Cons.prems obtain i inputs0 where inputs: "inputs = i # inputs0"
    by (cases inputs) auto
  obtain r now where i: "i = (r, now)" by (cases i)
  let ?c1 = "c\<lparr>received := received c + 1, last_message := Some now\<rparr>"
  let ?eff = "[Get addr header, Sink (Some (body r)) now (ident c) (Endpoint addr), RaiseForStatus]"
  show ?case
  proof (cases "aiohttp_raises r")
    case True
    with op inputs i Cons.prems have "effects = [] @ ?eff" by (auto simp add: Let_def)
    with True inputs i show ?thesis by (intro exI [of _ "[]"] exI [of _ addr] exI [of _ r] exI [of _ now]) simp
  next
    case False
    obtain e2 ys2 eff2 c2 in2 where rec: "poll_addresses True header rest inputs0 ?c1 = (e2, ys2, eff2, c2, in2)"
      by (cases "poll_addresses True header rest inputs0 ?c1") auto
    with op inputs i False Cons.prems have e2: "e2 = Some (Raises HTTPError)"
      and eff: "effects = ?eff @ [Sleep (sleep c)] @ eff2"
      by (auto simp add: Let_def)
    from Cons.IH [of inputs0 ?c1 ys2 eff2 c2 in2] rec e2
    obtain before a r' now' where "eff2 = before @ [Get a header, Sink (Some (body r')) now' (ident c) (Endpoint a), RaiseForStatus]"
      and "(r', now') \<in> set inputs0" and "aiohttp_raises r'"
      by auto
    with eff inputs show ?thesis
      by (intro exI [of _ "?eff @ [Sleep (sleep c)] @ before"] exI [of _ a] exI [of _ r'] exI [of _ now']) simp
  qed
qed

lemma HTTPPoll_read_status_error:
  "HTTPPoll_read fuel True header inputs c = (Raises HTTPError, ys, effects, c') \<Longrightarrow>
   \<exists>before addr r now. effects = before @ [Get addr header, Sink (Some (body r)) now (ident c) (Endpoint addr), RaiseForStatus]
      \<and> (r, now) \<in> set inputs \<and> aiohttp_raises r"
proof (induction fuel arbitrary: inputs c ys effects c')
  case 0
  then show ?case by simp
next
  case (Suc fuel)
  obtain e1 ys1 eff1 c1 in1 where round: "poll_addresses True header (addresses c) inputs c = (e1, ys1, eff1, c1, in1)"
    by (cases "poll_addresses True header (addresses c) inputs c") auto
  show ?case
  proof (cases e1)
    case (Some e)
    with round Suc.prems have "e = Raises HTTPError" "effects = eff1" by simp_all
    with round Some show ?thesis by (auto dest: poll_addresses_status_error)
  next
    case None
    obtain e2 ys2 eff2 c2 where rest: "HTTPPoll_read fuel True header in1 c1 = (e2, ys2, eff2, c2)"
      by (cases "HTTPPoll_read fuel True header in1 c1") auto
    with round None Suc.prems have e2: "e2 = Raises HTTPError"
      and eff: "effects = eff1 @ [Sleep (delay c)] @ eff2"
      by simp_all
    from poll_addresses_kept [OF round] have kept: "ident c1 = ident c" "set in1 \<subseteq> set inputs" by simp_all
    from Suc.IH [of in1 c1 ys2 eff2 c2] rest e2
    obtain before a r now where "eff2 = before @ [Get a header, Sink (Some (body r)) now (ident c1) (Endpoint a), RaiseForStatus]"
      and "(r, now) \<in> set in1" and "aiohttp_raises r"
      by auto
    with eff kept show ?thesis
      by (intro exI [of _ "eff1 @ [Sleep (delay c)] @ before"] exI [of _ a] exI [of _ r] exI [of _ now]) auto
  qed
qed

text \<open>
  Claim C6.  With a sink configured, every HTTP read or write hands the body of the
  response to the sink, with a timestamp, the id of the connection and the endpoint or send
  address, immediately before it checks the status: in the synchronous connection, in the
  asynchronous one (after opening the session if need be), in the throttled one (after the
  suspension if any) and in each round of the polling one.  The status error is raised
  exactly when the library's check fails, so it is never raised before the sink has the
  payload.
\<close>

theorem raw_payload_before_status_error:
  "snd (HTTPSync_read True now r address as_json as_text uuid) =
     [RequestsGet address, Sink (Some (body r)) now (str_uuid uuid) (Endpoint address), RaiseForStatus]
   \<and> (fst (HTTPSync_read True now r address as_json as_text uuid) = Inl HTTPError \<longleftrightarrow> requests_raises r)
   \<and> snd (HTTPSync_write True now r address data as_json as_text uuid) =
     [RequestsPost address data, Sink (Some (body r)) now (str_uuid uuid) (Endpoint address), RaiseForStatus]
   \<and> (fst (HTTPSync_write True now r address data as_json as_text uuid) = Inl HTTPError \<longleftrightarrow> requests_raises r)
   \<and> (\<exists>opened. fst (snd (HTTPAsyncConn_read True now r address header return_headers c)) =
          opened @ [Get address header,
                    Sink (Some (body r)) now (ident c)
                      (EndpointHeader address (if return_headers then Some (headers r) else None)),
                    RaiseForStatus]
        \<and> (opened = [] \<or> opened = [ClientSession]))
   \<and> (fst (HTTPAsyncConn_read True now r address header return_headers c) = Inl HTTPError \<longleftrightarrow> aiohttp_raises r)
   \<and> (\<exists>opened. fst (snd (HTTPAsyncConn_write True now r address msg header c)) =
          opened @ [Post address msg header, Sink (Some (body r)) now (ident c) (SendTo address),
                    RaiseForStatus]
        \<and> (opened = [] \<or> opened = [ClientSession]))
   \<and> (fst (HTTPAsyncConn_write True now r address msg header c) = Inl HTTPError \<longleftrightarrow> aiohttp_raises r)
   \<and> (\<exists>before. fst (snd (ThrottledHTTPAsyncConn_read True weight t t_wait t_wake now r address header
                             return_headers tc)) =
          before @ [Get address header,
                    Sink (Some (body r)) now (ident tc)
                      (EndpointHeader address (if return_headers then Some (headers r) else None)),
                    RaiseForStatus]
        \<and> RaiseForStatus \<notin> set before)
   \<and> (fst (ThrottledHTTPAsyncConn_read True weight t t_wait t_wake now r address header return_headers tc)
        = Inl HTTPError \<longleftrightarrow> aiohttp_raises r)
   \<and> (fst (HTTPPoll_read fuel True header inputs pc) = Raises HTTPError \<longrightarrow>
        (\<exists>before addr r' now'.
           fst (snd (snd (HTTPPoll_read fuel True header inputs pc))) =
             before @ [Get addr header, Sink (Some (body r')) now' (ident pc) (Endpoint addr), RaiseForStatus]
           \<and> (r', now') \<in> set inputs \<and> aiohttp_raises r'))"
proof (intro conjI impI)
  show "snd (HTTPSync_read True now r address as_json as_text uuid) =
     [RequestsGet address, Sink (Some (body r)) now (str_uuid uuid) (Endpoint address), RaiseForStatus]"
    using process_response_effects [of now r address as_json as_text uuid]
    by (auto simp add: HTTPSync_read_def split: prod.splits)
  show "fst (HTTPSync_read True now r address as_json as_text uuid) = Inl HTTPError \<longleftrightarrow> requests_raises r"
    using process_response_error [of True now r address as_json as_text uuid]
    by (auto simp add: HTTPSync_read_def split: prod.splits)
  show "snd (HTTPSync_write True now r address data as_json as_text uuid) =
     [RequestsPost address data, Sink (Some (body r)) now (str_uuid uuid) (Endpoint address), RaiseForStatus]"
    using process_response_effects [of now r address as_json as_text uuid]
    by (auto simp add: HTTPSync_write_def split: prod.splits)
  show "fst (HTTPSync_write True now r address data as_json as_text uuid) = Inl HTTPError \<longleftrightarrow> requests_raises r"
    using process_response_error [of True now r address as_json as_text uuid]
    by (auto simp add: HTTPSync_write_def split: prod.splits)
  show "\<exists>opened. fst (snd (HTTPAsyncConn_read True now r address header return_headers c)) =
          opened @ [Get address header,
                    Sink (Some (body r)) now (ident c)
                      (EndpointHeader address (if return_headers then Some (headers r) else None)),
                    RaiseForStatus]
        \<and> (opened = [] \<or> opened = [ClientSession])"
    by (simp add: HTTPAsyncConn_read_def HTTPAsyncConn_open_def Let_def)
  show "fst (HTTPAsyncConn_read True now r address header return_headers c) = Inl HTTPError \<longleftrightarrow> aiohttp_raises r"
    by (simp add: HTTPAsyncConn_read_def HTTPAsyncConn_open_def Let_def)
  show "\<exists>opened. fst (snd (HTTPAsyncConn_write True now r address msg header c)) =
          opened @ [Post address msg header, Sink (Some (body r)) now (ident c) (SendTo address),
                    RaiseForStatus]
        \<and> (opened = [] \<or> opened = [ClientSession])"
    by (simp add: HTTPAsyncConn_write_def HTTPAsyncConn_open_def Let_def)
  show "fst (HTTPAsyncConn_write True now r address msg header c) = Inl HTTPError \<longleftrightarrow> aiohttp_raises r"
    by (simp add: HTTPAsyncConn_write_def HTTPAsyncConn_open_def Let_def)
  show "\<exists>before. fst (snd (ThrottledHTTPAsyncConn_read True weight t t_wait t_wake now r address header
                             return_headers tc)) =
          before @ [Get address header,
                    Sink (Some (body r)) now (ident tc)
                      (EndpointHeader address (if return_headers then Some (headers r) else None)),
                    RaiseForStatus]
        \<and> RaiseForStatus \<notin> set before"
  proof (cases "account weight t tc")
    case (Pair used reset)
    then show ?thesis
      by (cases "is_open tc"; cases "limit_reached used (throttle_limit tc)")
        (simp_all add: ThrottledHTTPAsyncConn_read_def throttle_def HTTPAsyncConn_read_def
          HTTPAsyncConn_open_def Let_def is_open_def)
  qed
  show "fst (ThrottledHTTPAsyncConn_read True weight t t_wait t_wake now r address header return_headers tc)
        = Inl HTTPError \<longleftrightarrow> aiohttp_raises r"
    by (simp add: ThrottledHTTPAsyncConn_read_def throttle_def HTTPAsyncConn_read_def
        HTTPAsyncConn_open_def Let_def split: prod.splits)
  show "\<exists>before addr r' now'.
           fst (snd (snd (HTTPPoll_read fuel True header inputs pc))) =
             before @ [Get addr header, Sink (Some (body r')) now' (ident pc) (Endpoint addr), RaiseForStatus]
           \<and> (r', now') \<in> set inputs \<and> aiohttp_raises r'"
    if "fst (HTTPPoll_read fuel True header inputs pc) = Raises HTTPError"
  proof -
    obtain e ys effects c' where p: "HTTPPoll_read fuel True header inputs pc = (e, ys, effects, c')"
      by (cases "HTTPPoll_read fuel True header inputs pc") auto
    with that have "HTTPPoll_read fuel True header inputs pc = (Raises HTTPError, ys, effects, c')" by simp
    from HTTPPoll_read_status_error [OF this] p show ?thesis by simp
  qed
qed

lemma http_0: "http_0 = \<lparr>ident = ''rest.http.0'', received = 0, sent = 0, last_message = None, conn = None\<rparr>"
  by (simp add: http_0_def HTTPAsyncConn_init_def AsyncConnection_init_def digit_char_def)

lemma poll_0: "poll_0 = \<lparr>ident = ''poll.http.0.http.0'', received = 0, sent = 0, last_message = None,
                conn = None, addresses = [''https://api/ticker''], sleep = 1, delay = 60\<rparr>"
  by (simp add: poll_0_def HTTPPoll_init_def HTTPAsyncConn_init_def AsyncConnection_init_def
      digit_char_def async_connection.defs)

theorem raw_payload_before_status_error_witness:
  "requests_raises not_found \<and> aiohttp_raises not_found
   \<and> HTTPSync_read True 7 not_found ''https://api/symbol'' True False None =
       (Inl HTTPError,
        [RequestsGet ''https://api/symbol'',
         Sink (Some ''Not Found'') 7 ''None'' (Endpoint ''https://api/symbol''), RaiseForStatus])
   \<and> fst (HTTPAsyncConn_read True 7 not_found ''https://api/symbol'' None False http_0) = Inl HTTPError
   \<and> fst (snd (HTTPAsyncConn_read True 7 not_found ''https://api/symbol'' None False http_0)) =
       [ClientSession, Get ''https://api/symbol'' None,
        Sink (Some ''Not Found'') 7 ''rest.http.0'' (EndpointHeader ''https://api/symbol'' None),
        RaiseForStatus]
   \<and> fst (HTTPPoll_read 1 True None [(not_found, 7)] poll_open) = Raises HTTPError
   \<and> fst (snd (snd (HTTPPoll_read 1 True None [(not_found, 7)] poll_open))) =
       [Get ''https://api/ticker'' None,
        Sink (Some ''Not Found'') 7 ''poll.http.0.http.0'' (Endpoint ''https://api/ticker''),
        RaiseForStatus]"
proof -
  have rr: "requests_raises not_found" and ar: "aiohttp_raises not_found"
    by (simp_all add: requests_raises_def aiohttp_raises_def not_found_def)
  note T = raw_payload_before_status_error [of 7 not_found "''https://api/symbol''" True False None
      None None False http_0 "''order''" 1 7 7 7 throttled_10 1 "[(not_found, 7)]" poll_open]
  from T rr have "fst (HTTPSync_read True 7 not_found ''https://api/symbol'' True False None) = Inl HTTPError"
    by simp
  moreover from T have "snd (HTTPSync_read True 7 not_found ''https://api/symbol'' True False None) =
     [RequestsGet ''https://api/symbol'',
      Sink (Some (body not_found)) 7 (str_uuid None) (Endpoint ''https://api/symbol''), RaiseForStatus]"
    by (rule conjunct1)
  ultimately have sync: "HTTPSync_read True 7 not_found ''https://api/symbol'' True False None =
       (Inl HTTPError,
        [RequestsGet ''https://api/symbol'',
         Sink (Some ''Not Found'') 7 ''None'' (Endpoint ''https://api/symbol''), RaiseForStatus])"
    by (simp add: prod_eq_iff not_found_def)
  have async: "HTTPAsyncConn_read True 7 not_found ''https://api/symbol'' None False http_0 =
      (Inl HTTPError,
       [ClientSession, Get ''https://api/symbol'' None,
        Sink (Some ''Not Found'') 7 ''rest.http.0'' (EndpointHeader ''https://api/symbol'' None),
        RaiseForStatus],
       http_0\<lparr>conn := Some \<lparr>closed = False\<rparr>, last_message := Some 7, received := 1\<rparr>)"
    using ar by (simp add: HTTPAsyncConn_read_def HTTPAsyncConn_open_def is_open_def http_0 not_found_def Let_def)
  have poll: "HTTPPoll_read 1 True None [(not_found, 7)] poll_open =
      (Raises HTTPError, [],
       [Get ''https://api/ticker'' None,
        Sink (Some ''Not Found'') 7 ''poll.http.0.http.0'' (Endpoint ''https://api/ticker''),
        RaiseForStatus],
       poll_open\<lparr>received := 1, last_message := Some 7\<rparr>)"
    using ar by (simp add: poll_open_def is_open_def not_found_def Let_def)
  from sync async poll rr ar show ?thesis by simp
qed

subsection \<open>Access to a closed channel\<close>

lemma HTTPAsyncConn_read_closed:
  "\<not> is_open c \<Longrightarrow>
   \<exists>res effects c'. HTTPAsyncConn_read sink now r address header return_headers c =
      (res, ClientSession # Get address header # effects, c') \<and> is_open c'"
  by (simp add: HTTPAsyncConn_read_def HTTPAsyncConn_open_def Let_def is_open_def)

lemma HTTPAsyncConn_write_closed:
  "\<not> is_open c \<Longrightarrow>
   \<exists>res effects c'. HTTPAsyncConn_write sink now r address msg header c =
      (res, ClientSession # Post address msg header # effects, c') \<and> is_open c'"
  by (simp add: HTTPAsyncConn_write_def HTTPAsyncConn_open_def Let_def is_open_def)

text \<open>
  Claim C7, as the code has it.  On a closed WebSocket connection \<^verbatim>\<open>read\<close> and \<^verbatim>\<open>write\<close>
  raise \<^verbatim>\<open>ConnectionClosed\<close>; they log the error and do nothing else.  On a closed
  asynchronous or throttled HTTP connection \<^verbatim>\<open>read\<close> and \<^verbatim>\<open>write\<close> create the session first
  and then send the request, and so does the \<^verbatim>\<open>write\<close> a polling connection inherits.  The
  \<^verbatim>\<open>read\<close> of a polling connection that is closed and has an address to poll raises
  \<^verbatim>\<open>ConnectionClosed\<close> instead, and opens nothing.
\<close>

theorem closed_channel_access:
  "(\<not> is_open wc \<longrightarrow>
      WSAsyncConn_read sink frames wc =
        (Some ConnectionClosed, [], [LOG_error ''connection closed in read()''], wc)
    \<and> WSAsyncConn_write sink now data wc =
        (Some ConnectionClosed, [LOG_error ''connection closed in write()''], wc))
   \<and> (\<not> is_open c \<longrightarrow>
      (\<exists>res effects c'. HTTPAsyncConn_read sink now r address header return_headers c =
          (res, ClientSession # Get address header # effects, c') \<and> is_open c')
    \<and> (\<exists>res effects c'. HTTPAsyncConn_write sink now r address msg header c =
          (res, ClientSession # Post address msg header # effects, c') \<and> is_open c'))
   \<and> (\<not> is_open tc \<longrightarrow>
      (\<exists>res before effects c'.
         ThrottledHTTPAsyncConn_read sink weight t t_wait t_wake now r address header return_headers tc =
           (res, before @ ClientSession # Get address header # effects, c')
         \<and> list_all quiet before \<and> is_open c'))
   \<and> (\<not> is_open pc \<longrightarrow>
      (\<exists>res effects c'. HTTPAsyncConn_write sink now r address msg header pc =
          (res, ClientSession # Post address msg header # effects, c') \<and> is_open c')
    \<and> (addresses pc \<noteq> [] \<longrightarrow>
          HTTPPoll_read (Suc fuel) sink header inputs pc =
            (Raises ConnectionClosed, [], [LOG_error ''connection closed in read()''], pc)))"
proof (intro conjI impI)
  assume "\<not> is_open wc"
  then show "WSAsyncConn_read sink frames wc =
        (Some ConnectionClosed, [], [LOG_error ''connection closed in read()''], wc)"
    and "WSAsyncConn_write sink now data wc =
        (Some ConnectionClosed, [LOG_error ''connection closed in write()''], wc)"
    by (simp_all add: WSAsyncConn_read_def WSAsyncConn_write_def)
next
  assume "\<not> is_open c"
  then show "\<exists>res effects c'. HTTPAsyncConn_read sink now r address header return_headers c =
          (res, ClientSession # Get address header # effects, c') \<and> is_open c'"
    and "\<exists>res effects c'. HTTPAsyncConn_write sink now r address msg header c =
          (res, ClientSession # Post address msg header # effects, c') \<and> is_open c'"
    by (simp_all add: HTTPAsyncConn_read_closed HTTPAsyncConn_write_closed)
next
  assume closed: "\<not> is_open tc"
  obtain slept tc' where t: "throttle weight t t_wait t_wake tc = (slept, tc')"
    by (cases "throttle weight t t_wait t_wake tc")
  then have "conn tc' = conn tc"
    by (auto simp add: throttle_def split: prod.splits if_splits)
  with closed have "\<not> is_open tc'" by (simp add: is_open_def)
  then have "\<exists>res effects c'. HTTPAsyncConn_read sink now r address header return_headers tc' =
       (res, ClientSession # Get address header # effects, c') \<and> is_open c'"
    by (rule HTTPAsyncConn_read_closed)
  then obtain res effects c' where
    "HTTPAsyncConn_read sink now r address header return_headers tc' =
       (res, ClientSession # Get address header # effects, c')" and "is_open c'"
    by blast
  note rd = this
  show "\<exists>res before effects c'.
         ThrottledHTTPAsyncConn_read sink weight t t_wait t_wake now r address header return_headers tc =
           (res, before @ ClientSession # Get address header # effects, c')
         \<and> list_all quiet before \<and> is_open c'"
  proof (cases slept)
    case None
    with t rd show ?thesis
      by (intro exI [of _ res] exI [of _ "[]"] exI [of _ effects] exI [of _ c'])
        (simp add: ThrottledHTTPAsyncConn_read_def)
  next
    case (Some d)
    with t rd show ?thesis
      by (intro exI [of _ res] exI [of _ "[LOG_info ''Throttling kicked in'', Sleep d]"]
          exI [of _ effects] exI [of _ c'])
        (simp add: ThrottledHTTPAsyncConn_read_def quiet_def)
  qed
next
  assume "\<not> is_open pc"
  then show "\<exists>res effects c'. HTTPAsyncConn_write sink now r address msg header pc =
          (res, ClientSession # Post address msg header # effects, c') \<and> is_open c'"
    by (rule HTTPAsyncConn_write_closed)
next
  assume "\<not> is_open pc" and "addresses pc \<noteq> []"
  then show "HTTPPoll_read (Suc fuel) sink header inputs pc =
            (Raises ConnectionClosed, [], [LOG_error ''connection closed in read()''], pc)"
    by (cases "addresses pc") simp_all
qed

theorem closed_channel_access_witness:
  "\<not> is_open ws_0 \<and> \<not> is_open http_0 \<and> \<not> is_open poll_0
   \<and> WSAsyncConn_read True [(''frame'', 7)] ws_0 =
       (Some ConnectionClosed, [], [LOG_error ''connection closed in read()''], ws_0)
   \<and> WSAsyncConn_write True 7 ''ping'' ws_0 =
       (Some ConnectionClosed, [LOG_error ''connection closed in write()''], ws_0)
   \<and> (\<exists>res effects c'. HTTPAsyncConn_read False 7 ok_response ''https://api/symbol'' None False http_0 =
          (res, ClientSession # Get ''https://api/symbol'' None # effects, c') \<and> is_open c')
   \<and> HTTPPoll_read (Suc 0) False None [(ok_response, 7)] poll_0 =
       (Raises ConnectionClosed, [], [LOG_error ''connection closed in read()''], poll_0)"
proof -
  have w: "\<not> is_open ws_0" by (simp add: is_open_def ws_0_def)
  have h: "\<not> is_open http_0" by (simp add: is_open_def http_0)
  have p: "\<not> is_open poll_0" and a: "addresses poll_0 \<noteq> []" by (simp_all add: is_open_def poll_0)
  note T = closed_channel_access [of ws_0 True "[(''frame'', 7)]" 7 "''ping''" http_0 ok_response
      "''https://api/symbol''" None False "''order''" throttled_10 1 7 7 7 poll_0 0 "[(ok_response, 7)]"]
  note H = closed_channel_access [of ws_0 False "[(''frame'', 7)]" 7 "''ping''" http_0 ok_response
      "''https://api/symbol''" None False "''order''" throttled_10 1 7 7 7 poll_0 0 "[(ok_response, 7)]"]
  note P = H
  from T w have "WSAsyncConn_read True [(''frame'', 7)] ws_0 =
       (Some ConnectionClosed, [], [LOG_error ''connection closed in read()''], ws_0)"
    "WSAsyncConn_write True 7 ''ping'' ws_0 =
       (Some ConnectionClosed, [LOG_error ''connection closed in write()''], ws_0)"
    by simp_all
  moreover from H h have "\<exists>res effects c'. HTTPAsyncConn_read False 7 ok_response ''https://api/symbol'' None False http_0 =
          (res, ClientSession # Get ''https://api/symbol'' None # effects, c') \<and> is_open c'"
    by blast
  moreover from P p a have "HTTPPoll_read (Suc 0) False None [(ok_response, 7)] poll_0 =
       (Raises ConnectionClosed, [], [LOG_error ''connection closed in read()''], poll_0)"
    by blast
  ultimately show ?thesis using w h p by simp
qed

text \<open>The claim as stated fails for the polling connection: read on a closed one raises
  \<^verbatim>\<open>ConnectionClosed\<close>, creates no session and leaves the connection closed.\<close>

theorem polling_read_closed_counterexample:
  "\<not> is_open poll_0
   \<and> HTTPPoll_read 1 False None [(ok_response, 7)] poll_0 =
       (Raises ConnectionClosed, [], [LOG_error ''connection closed in read()''], poll_0)
   \<and> ClientSession \<notin> set (fst (snd (snd (HTTPPoll_read 1 False None [(ok_response, 7)] poll_0))))
   \<and> \<not> is_open (snd (snd (snd (HTTPPoll_read 1 False None [(ok_response, 7)] poll_0))))"
  by (simp add: poll_0 is_open_def)

subsection \<open>Connection ids\<close>

lemma digit_char_cases:
  assumes "d < 10"
  shows "digit_val (digit_char d) = d \<and> digit_char d \<noteq> CHR ''.''"
proof -
  from assms have "d = 0 \<or> d = 1 \<or> d = 2 \<or> d = 3 \<or> d = 4 \<or> d = 5 \<or> d = 6 \<or> d = 7 \<or> d = 8 \<or> d = 9"
    by arith
  then show ?thesis
    by (elim disjE) (simp_all add: digit_char_def digit_val_def)
qed

lemma str_nat_unfold:
  "str_nat n = (if n < 10 then [digit_char n] else str_nat (n div 10) @ [digit_char (n mod 10)])"
  by (rule str_nat.simps)

lemma str_nat_no_dot: "CHR ''.'' \<notin> set (str_nat n)"
proof (induction n rule: str_nat.induct)
  case (1 n)
  show ?case
  proof (cases "n < 10")
    case True
    then have "str_nat n = [digit_char n]"
      by (subst str_nat_unfold) (simp del: str_nat.simps)
    with True digit_char_cases [of n] show ?thesis by (auto simp del: str_nat.simps)
  next
    case False
    then have "str_nat n = str_nat (n div 10) @ [digit_char (n mod 10)]"
      by (subst str_nat_unfold) (simp del: str_nat.simps)
    moreover have "n mod 10 < 10" by simp
    ultimately show ?thesis
      using 1 [OF False] digit_char_cases [of "n mod 10"] by (auto simp del: str_nat.simps)
  qed
qed

lemma nat_of_str_snoc: "nat_of_str (xs @ [c]) = 10 * nat_of_str xs + digit_val c"
  by (simp add: nat_of_str_def)

lemma nat_of_str_str_nat: "nat_of_str (str_nat n) = n"
proof (induction n rule: str_nat.induct)
  case (1 n)
  show ?case
  proof (cases "n < 10")
    case True
    then have "str_nat n = [digit_char n]"
      by (subst str_nat_unfold) (simp del: str_nat.simps)
    with True digit_char_cases [of n] show ?thesis
      by (simp add: nat_of_str_def del: str_nat.simps)
  next
    case False
    then have "str_nat n = str_nat (n div 10) @ [digit_char (n mod 10)]"
      by (subst str_nat_unfold) (simp del: str_nat.simps)
    moreover have "n mod 10 < 10" by simp
    ultimately show ?thesis
      using 1 [OF False] digit_char_cases [of "n mod 10"]
      by (simp add: nat_of_str_snoc del: str_nat.simps)
  qed
qed

lemma numeric_suffix_dot:
  assumes "CHR ''.'' \<notin> set t"
  shows "numeric_suffix (front @ CHR ''.'' # t) = t"
proof -
  have "takeWhile (\<lambda>c. c \<noteq> CHR ''.'') (rev t @ CHR ''.'' # rev front) =
        takeWhile (\<lambda>c. c \<noteq> CHR ''.'') (rev t)"
    by (rule takeWhile_tail) simp
  also have "\<dots> = rev t"
    using assms by (auto simp add: takeWhile_eq_all_conv)
  finally show ?thesis by (simp add: numeric_suffix_def)
qed

lemma id_number_tagged: "id_number (front @ CHR ''.'' # str_nat k) = k"
  by (simp add: id_number_def numeric_suffix_dot [OF str_nat_no_dot] nat_of_str_str_nat
      del: str_nat.simps)

lemma id_number_expected: "id_number (expected_id spec k) = k"
proof (cases spec)
  case (NewHTTP conn_id)
  have "conn_id @ ''.http.'' @ str_nat k = (conn_id @ ''.http'') @ CHR ''.'' # str_nat k"
    by (simp del: str_nat.simps)
  with NewHTTP show ?thesis by (simp only: expected_id.simps id_number_tagged)
next
  case (NewThrottled conn_id limit interval)
  have "conn_id @ ''.http.'' @ str_nat k = (conn_id @ ''.http'') @ CHR ''.'' # str_nat k"
    by (simp del: str_nat.simps)
  with NewThrottled show ?thesis by (simp only: expected_id.simps id_number_tagged)
next
  case (NewPoll address conn_id delay' sleep')
  have "conn_id @ ''.http.'' @ str_nat k @ ''.http.'' @ str_nat k =
        (conn_id @ ''.http.'' @ str_nat k @ ''.http'') @ CHR ''.'' # str_nat k"
    by (simp del: str_nat.simps)
  with NewPoll show ?thesis by (simp only: expected_id.simps id_number_tagged)
next
  case (NewWS address conn_id)
  have "conn_id @ ''.ws.'' @ str_nat k = (conn_id @ ''.ws'') @ CHR ''.'' # str_nat k"
    by (simp del: str_nat.simps)
  with NewWS show ?thesis by (simp only: expected_id.simps id_number_tagged)
qed

lemma construct_accepted:
  assumes "accepted_spec spec"
  shows "construct spec n = (Inr (expected_id spec n), n + 1)"
proof (cases spec)
  case (NewHTTP conn_id)
  then show ?thesis
    by (simp add: HTTPAsyncConn_init_def AsyncConnection_init_def del: str_nat.simps)
next
  case (NewThrottled conn_id limit interval)
  then show ?thesis
    by (simp add: ThrottledHTTPAsyncConn_init_def HTTPAsyncConn_init_def AsyncConnection_init_def
        async_connection.defs del: str_nat.simps)
next
  case (NewPoll address conn_id delay' sleep')
  then show ?thesis
    by (simp add: HTTPPoll_init_def HTTPAsyncConn_init_def AsyncConnection_init_def
        async_connection.defs del: str_nat.simps)
next
  case (NewWS address conn_id)
  with assms show ?thesis
    by (simp add: WSAsyncConn_init_def AsyncConnection_init_def async_connection.defs
        del: str_nat.simps)
qed

lemma construct_all_ids:
  assumes "list_all accepted_spec specs" and "i < length specs"
  shows "construct_all specs n ! i = Inr (expected_id (specs ! i) (n + i))"
  using assms
proof (induction specs arbitrary: n i)
  case Nil
  then show ?case by simp
next
  case (Cons spec specs)
  from Cons.prems have acc: "accepted_spec spec" and rest: "list_all accepted_spec specs" by simp_all
  note c = construct_accepted [OF acc, of n]
  show ?case
  proof (cases i)
    case 0
    with c show ?thesis by (simp del: str_nat.simps)
  next
    case (Suc j)
    with Cons.prems have "j < length specs" by simp
    from Cons.IH [OF rest this, of "n + 1"] Suc c show ?thesis by (simp del: str_nat.simps)
  qed
qed

text \<open>
  Claim C8, as the code has it.  There is one counter, \<^verbatim>\<open>AsyncConnection.conn_count\<close>, for
  all asynchronous connections.  The id of an HTTP or throttled HTTP connection is the given
  base, \<^verbatim>\<open>.http.\<close> and the counter as it stands before the construction; that of a WebSocket
  connection is the base, \<^verbatim>\<open>.ws.\<close> and the counter; that of a polling connection is the id of
  an HTTP connection followed by \<^verbatim>\<open>.http.\<close> and the counter once more.  Each construction
  adds one to the counter, and a WebSocket address that is rejected leaves it alone.  So in
  any sequence of constructions none of which is rejected, the \<open>i\<close>-th connection has the
  id of its kind for the starting value of the counter plus \<open>i\<close>, and the number after the
  last dot of that id is the starting value plus \<open>i\<close>: the numeric suffixes go up by one for
  each construction of any kind.
\<close>

theorem connection_ids:
  "ident (fst (HTTPAsyncConn_init conn_id n)) = conn_id @ ''.http.'' @ str_nat n
   \<and> snd (HTTPAsyncConn_init conn_id n) = n + 1
   \<and> ident (fst (ThrottledHTTPAsyncConn_init conn_id limit interval n)) = conn_id @ ''.http.'' @ str_nat n
   \<and> snd (ThrottledHTTPAsyncConn_init conn_id limit interval n) = n + 1
   \<and> (prefix ''wss://'' address \<longrightarrow>
        (\<exists>c. WSAsyncConn_init address conn_id n = (Inr c, n + 1)
             \<and> ident c = conn_id @ ''.ws.'' @ str_nat n))
   \<and> (\<not> prefix ''wss://'' address \<longrightarrow> WSAsyncConn_init address conn_id n = (Inl ValueError, n))
   \<and> ident (fst (HTTPPoll_init urls conn_id delay' sleep' n)) =
        conn_id @ ''.http.'' @ str_nat n @ ''.http.'' @ str_nat n
   \<and> snd (HTTPPoll_init urls conn_id delay' sleep' n) = n + 1
   \<and> (list_all accepted_spec specs \<longrightarrow>
        (\<forall>i < length specs.
           construct_all specs n ! i = Inr (expected_id (specs ! i) (n + i))
         \<and> id_number (expected_id (specs ! i) (n + i)) = n + i))
   \<and> nat_of_str (str_nat n) = n"
proof (intro conjI impI allI)
  show "ident (fst (HTTPAsyncConn_init conn_id n)) = conn_id @ ''.http.'' @ str_nat n"
    and "snd (HTTPAsyncConn_init conn_id n) = n + 1"
    by (simp_all add: HTTPAsyncConn_init_def AsyncConnection_init_def del: str_nat.simps)
  show "ident (fst (ThrottledHTTPAsyncConn_init conn_id limit interval n)) = conn_id @ ''.http.'' @ str_nat n"
    and "snd (ThrottledHTTPAsyncConn_init conn_id limit interval n) = n + 1"
    by (simp_all add: ThrottledHTTPAsyncConn_init_def HTTPAsyncConn_init_def AsyncConnection_init_def
        async_connection.defs del: str_nat.simps)
  show "\<exists>c. WSAsyncConn_init address conn_id n = (Inr c, n + 1)
             \<and> ident c = conn_id @ ''.ws.'' @ str_nat n" if "prefix ''wss://'' address"
    using that
    by (simp add: WSAsyncConn_init_def AsyncConnection_init_def async_connection.defs
        del: str_nat.simps)
  show "WSAsyncConn_init address conn_id n = (Inl ValueError, n)" if "\<not> prefix ''wss://'' address"
    using that by (simp add: WSAsyncConn_init_def)
  show "ident (fst (HTTPPoll_init urls conn_id delay' sleep' n)) =
        conn_id @ ''.http.'' @ str_nat n @ ''.http.'' @ str_nat n"
    and "snd (HTTPPoll_init urls conn_id delay' sleep' n) = n + 1"
    by (simp_all add: HTTPPoll_init_def HTTPAsyncConn_init_def AsyncConnection_init_def
        async_connection.defs del: str_nat.simps)
  show "construct_all specs n ! i = Inr (expected_id (specs ! i) (n + i))"
    if "list_all accepted_spec specs" "i < length specs" for i
    using that by (rule construct_all_ids)
  show "id_number (expected_id (specs ! i) (n + i)) = n + i" for i
    by (rule id_number_expected)
  show "nat_of_str (str_nat n) = n"
    by (rule nat_of_str_str_nat)
qed

theorem connection_ids_witness:
  "list_all accepted_spec mixed_specs
   \<and> construct_all mixed_specs 0 ! 0 = Inr ''feed.http.0''
   \<and> construct_all mixed_specs 0 ! 1 = Inr ''feed.ws.1''
   \<and> construct_all mixed_specs 0 ! 2 = Inr ''feed.http.2''
   \<and> construct_all mixed_specs 0 ! 3 = Inr ''poll.http.3.http.3''
   \<and> id_number ''feed.ws.1'' = 1
   \<and> id_number ''poll.http.3.http.3'' = 3
   \<and> (\<exists>c. WSAsyncConn_init ''wss://api/ws'' ''feed'' 1 = (Inr c, 2) \<and> ident c = ''feed.ws.1'')"
proof -
  have acc: "list_all accepted_spec mixed_specs" by (simp add: mixed_specs_def)
  have wss: "prefix ''wss://'' ''wss://api/ws''" by simp
  note T = connection_ids [of "''feed''" 0 None 60 "''wss://api/ws''" "Inr []" 60 1 mixed_specs]
  note W = connection_ids [of "''feed''" 1 None 60 "''wss://api/ws''" "Inr []" 60 1 mixed_specs]
  from T acc have ids: "\<forall>i < length mixed_specs.
      construct_all mixed_specs 0 ! i = Inr (expected_id (mixed_specs ! i) (0 + i))
      \<and> id_number (expected_id (mixed_specs ! i) (0 + i)) = 0 + i"
    by blast
  have "construct_all mixed_specs 0 ! 0 = Inr ''feed.http.0''"
    using ids [rule_format, of 0] by (simp add: mixed_specs_def digit_char_def)
  moreover have "construct_all mixed_specs 0 ! 1 = Inr ''feed.ws.1'' \<and> id_number ''feed.ws.1'' = 1"
    using ids [rule_format, of 1] by (simp add: mixed_specs_def digit_char_def)
  moreover have "construct_all mixed_specs 0 ! 2 = Inr ''feed.http.2''"
    using ids [rule_format, of 2] by (simp add: mixed_specs_def digit_char_def)
  moreover have "construct_all mixed_specs 0 ! 3 = Inr ''poll.http.3.http.3''
      \<and> id_number ''poll.http.3.http.3'' = 3"
    using ids [rule_format, of 3] by (simp add: mixed_specs_def digit_char_def)
  moreover from W [THEN conjunct2, THEN conjunct2, THEN conjunct2, THEN conjunct2, THEN conjunct1] wss
  have "\<exists>c. WSAsyncConn_init ''wss://api/ws'' ''feed'' 1 = (Inr c, 2) \<and> ident c = ''feed.ws.1''"
    by (simp add: digit_char_def numeral_2_eq_2)
  ultimately show ?thesis using acc by simp
qed

text \<open>The claim as stated fails: with a WebSocket connection constructed between two HTTP
  connections, the ids of the two HTTP connections end with 0 and 2.\<close>

theorem shared_counter_counterexample:
  "construct_all [NewHTTP ''feed'', NewWS ''wss://api/ws'' ''feed'', NewHTTP ''feed''] 0 =
     [Inr ''feed.http.0'', Inr ''feed.ws.1'', Inr ''feed.http.2'']
   \<and> construct_all [NewHTTP ''feed'', NewWS ''wss://api/ws'' ''feed'', NewHTTP ''feed''] 0 ! 2
       \<noteq> Inr ''feed.http.1''"
  by (simp add: HTTPAsyncConn_init_def WSAsyncConn_init_def AsyncConnection_init_def
      async_connection.defs digit_char_def)

subsection \<open>Opening an open connection\<close>

text \<open>
  Claim C9 at a WebSocket connection that is open and has sent 3 and received 5 frames:
  \<^verbatim>\<open>_open\<close> logs the warning and connects no second socket, but sets both counters to 0.
  \<^verbatim>\<open>HTTPAsyncConn._open\<close> on an open connection in the same state changes nothing.
\<close>

theorem ws_open_resets_counters:
  "is_open ws_busy \<and> sent ws_busy = 3 \<and> received ws_busy = 5
   \<and> WSAsyncConn_open False 8 ws_busy =
       ([LOG_warning ''websocket already open''], ws_busy\<lparr>sent := 0, received := 0\<rparr>)
   \<and> sent (snd (WSAsyncConn_open False 8 ws_busy)) = 0
   \<and> received (snd (WSAsyncConn_open False 8 ws_busy)) = 0
   \<and> snd (WSAsyncConn_open False 8 ws_busy) \<noteq> ws_busy
   \<and> is_open http_busy
   \<and> HTTPAsyncConn_open http_busy = ([LOG_warning ''HTTP session already created''], http_busy)"
  by (simp add: WSAsyncConn_open_def HTTPAsyncConn_open_def is_open_def ws_busy_def http_busy_def)

text \<open>
  Calling \<^verbatim>\<open>_open\<close> twice in a row, from any state of the connection: the second call only
  logs the warning and leaves the connection as the first call left it, with the one
  session or socket the first call found or made.
\<close>

theorem open_twice:
  "HTTPAsyncConn_open (snd (HTTPAsyncConn_open c)) =
     ([LOG_warning ''HTTP session already created''], snd (HTTPAsyncConn_open c))
   \<and> WSAsyncConn_open sink t' (snd (WSAsyncConn_open sink t wc)) =
     ([LOG_warning ''websocket already open''], snd (WSAsyncConn_open sink t wc))"
  by (simp add: HTTPAsyncConn_open_def WSAsyncConn_open_def is_open_def)

end
